(* ===== verification/Prelude.thy ===== *)
theory Prelude
  imports Complex_Main
begin

text \<open>
  Shared vocabulary of the gosu development: Go's numeric conversions
  (\<open>int(float64)\<close> truncates towards zero, integer \<open>/\<close> truncates towards
  zero), the run-time panics the modelled code can raise, and positional
  numbers (little-endian digit lists) used by the replay key decoder and the
  score and combo digit drawers.  Float64 arithmetic is idealised as exact
  real arithmetic; the truncating conversions are kept.
\<close>

named_theorems gosu_simps "evaluation rules of the gosu model"

type_synonym ms = int
type_synonym tick = int

text \<open>Go run-time panics, and the two construction errors the specification (section 7)
  gives the mode constructor, which is not under \<open>src/\<close>.\<close>

datatype go_panic = IndexOutOfRange | NilDereference | MakeSliceLen
  | ConfigurationError | DataError

definition go_trunc :: "real \<Rightarrow> int" where
  "go_trunc x = (if 0 \<le> x then \<lfloor>x\<rfloor> else \<lceil>x\<rceil>)"

definition go_div :: "int \<Rightarrow> int \<Rightarrow> int" where
  "go_div a b = sgn a * sgn b * (\<bar>a\<bar> div \<bar>b\<bar>)"

text \<open>Sequencing of handlers that may panic: a panic aborts the rest.\<close>

definition bind_go :: "go_panic + 'a \<Rightarrow> ('a \<Rightarrow> go_panic + 'b) \<Rightarrow> go_panic + 'b" where
  "bind_go r f = (case r of Inl e \<Rightarrow> Inl e | Inr a \<Rightarrow> f a)"

fun digits_value :: "int \<Rightarrow> int list \<Rightarrow> int" where
  "digits_value b [] = 0"
| "digits_value b (d # ds) = d + b * digits_value b ds"

lemma bind_go_simps [simp, gosu_simps]:
  "bind_go (Inl e) f = Inl e" "bind_go (Inr a) f = f a"
  by (simp_all add: bind_go_def)

subsection \<open>Truncation\<close>

lemma go_div_nonneg [simp]: "0 \<le> a \<Longrightarrow> 0 < b \<Longrightarrow> go_div a b = a div b"
  by (cases "a = 0") (auto simp: go_div_def sgn_if)

lemma go_div_neg: "a < 0 \<Longrightarrow> 0 < b \<Longrightarrow> go_div a b = - ((- a) div b)"
  by (simp add: go_div_def sgn_if)

lemma go_trunc_of_int [simp]: "go_trunc (of_int a) = a"
  by (simp add: go_trunc_def)

lemma go_trunc_numeral [simp, gosu_simps]:
  "go_trunc 0 = 0" "go_trunc 1 = 1" "go_trunc (numeral n) = numeral n"
  "go_trunc (- numeral n) = - numeral n"
  using go_trunc_of_int [of 0] go_trunc_of_int [of 1] go_trunc_of_int [of "numeral n"]
    go_trunc_of_int [of "- numeral n"] by simp_all

lemma go_trunc_nonneg: "0 \<le> x \<Longrightarrow> go_trunc x = \<lfloor>x\<rfloor>"
  by (simp add: go_trunc_def)

lemma go_trunc_div: "0 < b \<Longrightarrow> go_trunc (of_int a / of_int b) = go_div a b"
proof (cases "0 \<le> a")
  case True
  assume b: "0 < b"
  with True have "0 \<le> (of_int a / of_int b :: real)" by simp
  with True b show ?thesis by (simp add: go_trunc_def floor_divide_of_int_eq)
next
  case False
  assume b: "0 < b"
  with False have "of_int a / of_int b < (0::real)"
    by (intro divide_neg_pos) simp_all
  then have "\<not> 0 \<le> (of_int a / of_int b :: real)" by simp
  moreover have "\<lceil>of_int a / of_int b :: real\<rceil> = - (- a div b)"
  proof -
    have "\<lceil>of_int a / of_int b :: real\<rceil> = - \<lfloor>of_int (- a) / of_int b :: real\<rfloor>"
      by (simp add: ceiling_def)
    also have "\<dots> = - (- a div b)" by (simp only: floor_divide_of_int_eq)
    finally show ?thesis .
  qed
  ultimately show ?thesis using False b by (simp add: go_trunc_def go_div_neg)
qed

lemma go_div_mult_cancel [simp]: "0 < b \<Longrightarrow> go_div (a * b) b = a"
proof (cases "0 \<le> a")
  case False
  assume b: "0 < b"
  with False have "a * b < 0" by (simp add: mult_neg_pos)
  moreover have "- (a * b) div b = - a"
    using b by (metis minus_mult_left nonzero_mult_div_cancel_right less_irrefl)
  ultimately show ?thesis using b by (simp add: go_div_neg)
qed simp

lemma go_trunc_mono: "x \<le> y \<Longrightarrow> go_trunc x \<le> go_trunc y"
proof (cases "0 \<le> x")
  case True
  moreover assume "x \<le> y"
  ultimately show ?thesis by (simp add: go_trunc_def floor_mono)
next
  case False
  assume xy: "x \<le> y"
  show ?thesis
  proof (cases "0 \<le> y")
    case True
    with False have "\<lceil>x\<rceil> \<le> 0" "0 \<le> \<lfloor>y\<rfloor>" by simp_all
    then have "\<lceil>x\<rceil> \<le> \<lfloor>y\<rfloor>" by linarith
    with False True show ?thesis by (simp add: go_trunc_def)
  next
    case False
    with \<open>\<not> 0 \<le> x\<close> xy show ?thesis by (simp add: go_trunc_def ceiling_mono)
  qed
qed

lemma go_trunc_error: "\<bar>of_int (go_trunc x) - x\<bar> < 1"
  unfolding go_trunc_def by (auto simp: abs_if) linarith+

lemma go_trunc_abs_le: "\<bar>of_int (go_trunc x)\<bar> \<le> \<bar>x\<bar>"
proof (cases "0 \<le> x")
  case True
  then show ?thesis by (simp add: go_trunc_def)
next
  case False
  then have "\<lceil>x\<rceil> \<le> 0" by simp
  moreover have "x \<le> of_int \<lceil>x\<rceil>" by (rule le_of_int_ceiling)
  ultimately show ?thesis using False by (simp add: go_trunc_def)
qed

end
