(* ===== verification/Clock.thy ===== *)
theory Clock
  imports Prelude
begin

text \<open>
  The tick clock of \<open>src/mode/play.go\<close>: the wait constants (lines 60--63), the
  clock part of \<open>ScenePlay\<close> as the record \<open>play_clock\<close> (the timeline extends it)
  and \<open>clock_tick\<close>, the \<open>s.Tick++\<close> of each update.  \<open>TimeToTick\<close>,
  \<open>TickToTime\<close> and \<open>Time\<close> here are the conversions of lines 76--78 in exact
  arithmetic, as the specification (section 4.1) states them: they are the reference
  the code's binary64 conversions of \<open>Float64\<close> are measured against, and the code
  itself is modelled there.  The tick rate \<open>MaxTPS\<close> is a parameter.
\<close>

definition DefaultWaitBefore :: ms where
  "DefaultWaitBefore = go_trunc (- (18 / 10) * 1000)"

definition DefaultWaitAfter :: ms where
  "DefaultWaitAfter = 3 * 1000"

record play_clock =
  Tick :: tick

definition TimeToTick :: "int \<Rightarrow> ms \<Rightarrow> tick" where
  "TimeToTick MaxTPS time = go_trunc (of_int time / 1000 * of_int MaxTPS)"

definition TickToTime :: "int \<Rightarrow> tick \<Rightarrow> ms" where
  "TickToTime MaxTPS tick = go_trunc (of_int tick / of_int MaxTPS * 1000)"

definition Time :: "int \<Rightarrow> 'a play_clock_scheme \<Rightarrow> ms" where
  "Time MaxTPS s = go_trunc (of_int (Tick s) / of_int MaxTPS * 1000)"

text \<open>Each \<open>Update\<close> of a play scene starts with \<open>s.Tick++\<close> (comment at line 86).\<close>

definition clock_tick :: "'a play_clock_scheme \<Rightarrow> 'a play_clock_scheme" where
  "clock_tick s = s\<lparr>Tick := Tick s + 1\<rparr>"

subsection \<open>Evaluation in integer arithmetic\<close>

lemma DefaultWaitBefore_val [simp, gosu_simps]: "DefaultWaitBefore = -1800"
proof -
  have "- (18 / 10) * 1000 = (of_int (-1800) :: real)" by simp
  then show ?thesis unfolding DefaultWaitBefore_def by (simp only: go_trunc_of_int)
qed

lemma Time_TickToTime: "Time MaxTPS s = TickToTime MaxTPS (Tick s)"
  by (simp add: Time_def TickToTime_def)

lemma TimeToTick_int: "0 < MaxTPS \<Longrightarrow> TimeToTick MaxTPS t = go_div (t * MaxTPS) 1000"
proof -
  assume "0 < MaxTPS"
  have "of_int t / 1000 * of_int MaxTPS = (of_int (t * MaxTPS) / of_int 1000 :: real)" by simp
  moreover have "go_trunc (of_int (t * MaxTPS) / of_int 1000) = go_div (t * MaxTPS) 1000"
    by (rule go_trunc_div) simp
  ultimately show ?thesis unfolding TimeToTick_def by simp
qed

lemma TickToTime_int: "0 < MaxTPS \<Longrightarrow> TickToTime MaxTPS k = go_div (k * 1000) MaxTPS"
proof -
  assume pos: "0 < MaxTPS"
  have "of_int k / of_int MaxTPS * 1000 = (of_int (k * 1000) / of_int MaxTPS :: real)" by simp
  with pos show ?thesis unfolding TickToTime_def by (simp only: go_trunc_div)
qed

lemmas clock_int = TimeToTick_int TickToTime_int

subsection \<open>Properties of the conversions\<close>


text \<open>\<open>TimeToTick\<close> is monotone: a later time never maps to an earlier tick.\<close>

lemma TimeToTick_mono: "0 \<le> MaxTPS \<Longrightarrow> a \<le> b \<Longrightarrow> TimeToTick MaxTPS a \<le> TimeToTick MaxTPS b"
  unfolding TimeToTick_def
  by (rule go_trunc_mono) (simp add: mult_right_mono divide_right_mono)

text \<open>In exact arithmetic, converting a time to ticks and back truncates towards zero
  and loses less than one tick's duration plus one millisecond (the specification's
  bound; \<open>Float64\<close> shows what binary64 rounding adds).\<close>

lemma clock_roundtrip_bound:
  assumes pos: "0 < MaxTPS"
  shows "\<bar>TickToTime MaxTPS (TimeToTick MaxTPS t)\<bar> \<le> \<bar>t\<bar>
       \<and> \<bar>of_int (t - TickToTime MaxTPS (TimeToTick MaxTPS t))\<bar> < 1000 / of_int MaxTPS + (1::real)"
proof -
  define k where "k = TimeToTick MaxTPS t"
  define x where "x = (of_int t / 1000 * of_int MaxTPS :: real)"
  define y where "y = (of_int k / of_int MaxTPS * 1000 :: real)"
  have tp: "(0::real) < of_int MaxTPS" using pos by simp
  have k: "\<bar>of_int k - x\<bar> < 1" "\<bar>of_int k\<bar> \<le> \<bar>x\<bar>"
    unfolding k_def TimeToTick_def x_def by (rule go_trunc_error, rule go_trunc_abs_le)
  have r: "\<bar>of_int (TickToTime MaxTPS k) - y\<bar> < 1" "\<bar>of_int (TickToTime MaxTPS k)\<bar> \<le> \<bar>y\<bar>"
    unfolding y_def TickToTime_def by (rule go_trunc_error, rule go_trunc_abs_le)
  have yx: "y - of_int t = (of_int k - x) * (1000 / of_int MaxTPS)"
    using tp by (simp add: x_def y_def field_simps)
  have c: "(0::real) < 1000 / of_int MaxTPS" using tp by simp
  have "\<bar>y - of_int t\<bar> = \<bar>of_int k - x\<bar> * (1000 / of_int MaxTPS)"
    using c by (simp only: yx abs_mult)
  also have "\<dots> < 1 * (1000 / of_int MaxTPS)"
    using k(1) c by (rule mult_strict_right_mono)
  finally have "\<bar>y - of_int t\<bar> < 1000 / of_int MaxTPS" by simp
  then have b: "\<bar>of_int (t - TickToTime MaxTPS k)\<bar> < 1000 / of_int MaxTPS + (1::real)"
    using r(1) by linarith
  have "\<bar>y\<bar> = \<bar>of_int k\<bar> * (1000 / of_int MaxTPS)"
    using tp by (simp add: y_def abs_mult)
  also have "\<dots> \<le> \<bar>x\<bar> * (1000 / of_int MaxTPS)"
    using k(2) tp by (intro mult_right_mono) simp_all
  also have "\<dots> = \<bar>of_int t\<bar>"
    using tp by (simp add: x_def abs_mult)
  finally have "\<bar>of_int (TickToTime MaxTPS k)\<bar> \<le> (\<bar>of_int t\<bar> :: real)"
    using r(2) by linarith
  then have "\<bar>TickToTime MaxTPS k\<bar> \<le> \<bar>t\<bar>" by linarith
  with b show ?thesis by (simp add: k_def)
qed

text \<open>In exact arithmetic, when the tick rate divides 1000, \<open>TimeToTick\<close> inverts
  \<open>TickToTime\<close> exactly.\<close>

lemma tick_roundtrip_exact:
  assumes pos: "0 < MaxTPS" and dv: "MaxTPS dvd 1000"
  shows "TimeToTick MaxTPS (TickToTime MaxTPS k) = k"
proof -
  obtain q where q: "1000 = MaxTPS * q" using dv unfolding dvd_def by blast
  have "TickToTime MaxTPS k = k * q"
  proof -
    have "k * 1000 = (k * q) * MaxTPS" by (simp add: q)
    then show ?thesis using pos by (simp only: TickToTime_int go_div_mult_cancel)
  qed
  moreover have "k * q * MaxTPS = k * 1000" by (simp add: q)
  ultimately show ?thesis
    using pos by (simp only: TimeToTick_int go_div_mult_cancel zero_less_numeral)
qed

lemma clock_1000 [simp]: "TimeToTick 1000 t = t" "TickToTime 1000 k = k"
  by (simp_all add: clock_int)

lemma tick_roundtrip_240: "TimeToTick 240 (TickToTime 240 1) = 0"
  by (simp add: clock_int)

lemma TickToTime_shift:
  assumes m: "0 < MaxTPS" and k: "0 \<le> k"
  shows "TickToTime MaxTPS (k + MaxTPS) = TickToTime MaxTPS k + 1000"
proof -
  have "(k + MaxTPS) * 1000 = k * 1000 + 1000 * MaxTPS" by (simp add: algebra_simps)
  then have "(k + MaxTPS) * 1000 div MaxTPS = k * 1000 div MaxTPS + 1000"
    using m by simp
  then show ?thesis using m k by (simp add: TickToTime_int)
qed

end
