(* ===== verification/Float64.thy ===== *)
theory Float64
  imports Clock
begin

text \<open>
  The float64 arithmetic of the clock conversions (\<open>src/mode/play.go\<close> lines 76--78),
  modelled bit-exactly: IEEE 754 binary64 with rounding to nearest, ties to even.  A
  non-zero real \<open>x\<close> with \<open>2^e \<le> |x| < 2^(e+1)\<close> is rounded to a multiple of
  \<open>ulp64 |x| = 2^(max (e - 52) (-1074))\<close> (53 significant bits, subnormals below
  \<open>2^-1022\<close>); \<open>float_exp\<close> finds \<open>e\<close> by halving or doubling, with fuel 2100, enough for
  every binary64 magnitude.  Overflow to infinity is not modelled: the conversions of an
  \<open>int64\<close> time stay far below \<open>2^1024\<close>.  \<open>float64(n)\<close> of an integer is \<open>fl64\<close> of it,
  and the constant \<open>1000\<close> is exact.  \<open>TimeToTick64\<close>, \<open>TickToTime64\<close> and \<open>Time64\<close>
  are the code's conversions; \<open>SetTick\<close> (lines 80--88) uses \<open>TimeToTick64\<close>.  The
  exact conversions of \<open>Clock\<close> are the reference they are compared with.
\<close>

fun fexp :: "nat \<Rightarrow> real \<Rightarrow> int" where
  "fexp 0 a = 0"
| "fexp (Suc n) a = (if a < 1 then fexp n (2 * a) - 1 else if 2 \<le> a then fexp n (a / 2) + 1 else 0)"

definition float_exp :: "real \<Rightarrow> int" where
  "float_exp a = fexp 2100 a"

definition rne :: "real \<Rightarrow> int" where
  "rne m = (let f = \<lfloor>m\<rfloor>; d = m - of_int f
            in if d < 1 / 2 then f else if 1 / 2 < d then f + 1 else if even f then f else f + 1)"

definition ulp64 :: "real \<Rightarrow> real" where
  "ulp64 a = 2 powi (max (float_exp a - 52) (-1074))"

definition fl64 :: "real \<Rightarrow> real" where
  "fl64 x = (if x = 0 then 0 else sgn x * (of_int (rne (\<bar>x\<bar> / ulp64 \<bar>x\<bar>)) * ulp64 \<bar>x\<bar>))"

text \<open>The magnitudes on which \<open>fl64\<close> is exact at zero or rounds as a normal float64.\<close>

definition fl64_range :: "real \<Rightarrow> bool" where
  "fl64_range x \<longleftrightarrow> x = 0 \<or> 2 powi (-1000) \<le> \<bar>x\<bar> \<and> \<bar>x\<bar> < 2 powi 1000"

definition TimeToTick64 :: "int \<Rightarrow> ms \<Rightarrow> tick" where
  "TimeToTick64 MaxTPS time = go_trunc (fl64 (fl64 (fl64 (of_int time) / 1000) * fl64 (of_int MaxTPS)))"

definition TickToTime64 :: "int \<Rightarrow> tick \<Rightarrow> ms" where
  "TickToTime64 MaxTPS tick = go_trunc (fl64 (fl64 (fl64 (of_int tick) / fl64 (of_int MaxTPS)) * 1000))"

definition Time64 :: "int \<Rightarrow> 'a play_clock_scheme \<Rightarrow> ms" where
  "Time64 MaxTPS s = go_trunc (fl64 (fl64 (fl64 (of_int (Tick s)) / fl64 (of_int MaxTPS)) * 1000))"

text \<open>\<open>rf\<close> is the replay's \<open>BufferTime()\<close>, \<open>None\<close> for a nil replay.\<close>

definition SetTick :: "int \<Rightarrow> ms option \<Rightarrow> 'a play_clock_scheme \<Rightarrow> ms \<times> 'a play_clock_scheme" where
  "SetTick MaxTPS rf s =
     (let waitBefore = (case rf of
                          Some bt \<Rightarrow> if bt < DefaultWaitBefore then bt else DefaultWaitBefore
                        | None \<Rightarrow> DefaultWaitBefore)
      in (waitBefore, s\<lparr>Tick := TimeToTick64 MaxTPS waitBefore - 1\<rparr>))"

section \<open>Rounding\<close>

lemma fexp_correct:
  "0 < a \<Longrightarrow> 2 powi (- int k) \<le> a \<Longrightarrow> a < 2 powi (int k + 1) \<Longrightarrow> k \<le> n \<Longrightarrow>
   2 powi fexp n a \<le> a \<and> a < 2 powi (fexp n a + 1)"
proof (induction n arbitrary: a k)
  case 0
  then have "k = 0" by simp
  with "0.prems" show ?case by simp
next
  case (Suc n)
  consider (lo) "a < 1" | (hi) "2 \<le> a" | (mid) "1 \<le> a" "a < 2" by linarith
  then show ?case
  proof cases
    case lo
    have "k \<noteq> 0" using lo Suc.prems(2) by (cases k) auto
    then obtain j where k: "k = Suc j" by (cases k) auto
    have "2 powi (- int j) \<le> 2 * a"
      using Suc.prems(2) k by (simp add: power_int_diff power_int_minus field_simps)
    moreover have "2 * a < 2 powi (int j + 1)"
    proof -
      have "(2::real) \<le> 2 powi (int j + 1)" by (simp add: power_int_add)
      then show ?thesis using lo by linarith
    qed
    ultimately have ih: "2 powi fexp n (2 * a) \<le> 2 * a \<and> 2 * a < 2 powi (fexp n (2 * a) + 1)"
      using Suc.IH [of "2 * a" j] Suc.prems(1,4) k by simp
    then show ?thesis using lo by (simp add: power_int_diff power_int_add field_simps)
  next
    case hi
    have "k \<noteq> 0" using hi Suc.prems(3) by (cases k) auto
    then obtain j where k: "k = Suc j" by (cases k) auto
    have "2 powi (- int j) \<le> a / 2"
    proof -
      have "2 powi (- int j) \<le> (1::real)" by (simp add: power_int_minus inverse_le_1_iff)
      then show ?thesis using hi by linarith
    qed
    moreover have "a / 2 < 2 powi (int j + 1)"
      using Suc.prems(3) k by (simp add: power_int_add field_simps)
    ultimately have ih: "2 powi fexp n (a / 2) \<le> a / 2 \<and> a / 2 < 2 powi (fexp n (a / 2) + 1)"
      using Suc.IH [of "a / 2" j] Suc.prems(1,4) k by simp
    then show ?thesis using hi by (simp add: power_int_add field_simps)
  next
    case mid
    then show ?thesis by simp
  qed
qed

lemma float_exp_correct:
  assumes "2 powi (-1000) \<le> a" "a < 2 powi 1000"
  shows "2 powi float_exp a \<le> a \<and> a < 2 powi (float_exp a + 1)"
proof -
  have "0 < a" using assms(1) by (rule less_le_trans [rotated]) simp
  moreover have "a < 2 powi (int 1000 + 1)"
    using assms(2) by (rule less_le_trans) (simp add: power_int_add)
  ultimately show ?thesis
    unfolding float_exp_def using fexp_correct [of a 1000 2100] assms(1) by simp
qed

lemma rne_bound: "\<bar>of_int (rne m) - m\<bar> \<le> 1 / 2"
  unfolding rne_def Let_def by (auto simp: floor_le_iff)

lemma rne_int [simp]: "rne (of_int n) = n"
  by (simp add: rne_def)

lemma rne_numeral [simp]: "rne (numeral n) = numeral n"
  using rne_int [of "numeral n"] by simp

lemma rne_scaled:
  assumes "0 < U" shows "\<bar>of_int (rne (a / U)) * U - a\<bar> \<le> U / 2"
proof -
  have "of_int (rne (a / U)) * U - a = U * (of_int (rne (a / U)) - a / U)"
    using assms by (simp add: field_simps)
  then have "\<bar>of_int (rne (a / U)) * U - a\<bar> = U * \<bar>of_int (rne (a / U)) - a / U\<bar>"
    using assms by (simp add: abs_mult)
  also have "\<dots> \<le> U * (1 / 2)"
    using rne_bound assms by (intro mult_left_mono) auto
  finally show ?thesis by simp
qed

lemma rne_floor: "\<lfloor>m\<rfloor> \<le> rne m \<and> rne m \<le> \<lfloor>m\<rfloor> + 1"
  unfolding rne_def Let_def by auto

lemma rne_mono:
  assumes "m1 \<le> m2" shows "rne m1 \<le> rne m2"
proof (cases "\<lfloor>m1\<rfloor> = \<lfloor>m2\<rfloor>")
  case True
  then show ?thesis using assms unfolding rne_def Let_def by auto
next
  case False
  then have "\<lfloor>m1\<rfloor> + 1 \<le> \<lfloor>m2\<rfloor>" using floor_mono [OF assms] by simp
  then show ?thesis using rne_floor [of m1] rne_floor [of m2] by linarith
qed

lemma rne_scaled_le:
  assumes "0 < U" "x \<le> k * U" shows "of_int (rne (x / U)) * U \<le> of_int k * U"
proof -
  have "x / U \<le> of_int k" using assms by (simp add: divide_le_eq)
  then have "rne (x / U) \<le> k" using rne_mono [of "x / U" "of_int k"] by simp
  then show ?thesis using assms(1) by simp
qed

lemma rne_scaled_ge:
  assumes "0 < U" "k * U \<le> x" shows "of_int k * U \<le> of_int (rne (x / U)) * U"
proof -
  have "of_int k \<le> x / U" using assms by (simp add: le_divide_eq)
  then have "k \<le> rne (x / U)" using rne_mono [of "of_int k" "x / U"] by simp
  then show ?thesis using assms(1) by simp
qed

lemma ulp64_pos [simp]: "0 < ulp64 a"
  by (simp add: ulp64_def)

lemma float_exp_range:
  assumes "2 powi (-1000) \<le> a" "a < 2 powi 1000"
  shows "-1000 \<le> float_exp a" "float_exp a < 1000"
proof -
  note e = float_exp_correct [OF assms]
  show "-1000 \<le> float_exp a"
  proof (rule ccontr)
    assume "\<not> -1000 \<le> float_exp a"
    then have "2 powi (float_exp a + 1) \<le> (2::real) powi (-1000)"
      by (intro power_int_increasing) auto
    then show False using e assms(1) by linarith
  qed
  show "float_exp a < 1000"
  proof (rule power_int_le_imp_less_exp [of "2::real"])
    show "2 powi float_exp a < (2::real) powi 1000" using e assms(2) by linarith
  qed simp_all
qed

lemma ulp64_normal:
  assumes "2 powi (-1000) \<le> a" "a < 2 powi 1000"
  shows "ulp64 a = 2 powi float_exp a / 2 ^ 52"
  using float_exp_range [OF assms] by (simp add: ulp64_def power_int_diff)

text \<open>Rounding a normal number errs by at most half an ulp, \<open>2^-53\<close> of its magnitude.\<close>

lemma fl64_rel_err:
  assumes "2 powi (-1000) \<le> \<bar>x\<bar>" "\<bar>x\<bar> < 2 powi 1000"
  shows "\<bar>fl64 x - x\<bar> \<le> \<bar>x\<bar> / 2 ^ 53"
proof -
  define U where "U = ulp64 \<bar>x\<bar>"
  have U: "U = 2 powi float_exp \<bar>x\<bar> / 2 ^ 52"
    unfolding U_def using ulp64_normal [OF assms] .
  have "x \<noteq> 0" using assms(1) by auto
  then have "\<bar>fl64 x - x\<bar> = \<bar>of_int (rne (\<bar>x\<bar> / U)) * U - \<bar>x\<bar>\<bar>"
    unfolding fl64_def U_def by (cases "0 < x") (auto simp: abs_if algebra_simps)
  also have "\<dots> \<le> U / 2" by (rule rne_scaled) (unfold U, simp)
  also have "\<dots> \<le> \<bar>x\<bar> / 2 ^ 53"
    using U float_exp_correct [OF assms] by simp
  finally show ?thesis .
qed

lemma fl64_zero [simp]: "fl64 0 = 0"
  by (simp add: fl64_def)

text \<open>Integers below \<open>2^53\<close> are exact in binary64.\<close>

lemma fl64_of_int:
  assumes "\<bar>n\<bar> < 2 ^ 53" shows "fl64 (of_int n) = of_int n"
proof (cases "n = 0")
  case False
  define a where "a = (of_int \<bar>n\<bar> :: real)"
  have a1: "1 \<le> a" using False unfolding a_def by linarith
  have a2: "a < 2 powi 53" using assms unfolding a_def by (simp flip: of_int_less_iff)
  have b1: "2 powi (-1000) \<le> a" using a1 by (rule order_trans [rotated]) (simp add: power_int_minus)
  have b2: "a < 2 powi 1000"
    using a2 by (rule less_le_trans) (intro power_int_increasing, auto)
  note e = float_exp_correct [OF b1 b2]
  have e0: "0 \<le> float_exp a"
  proof (rule ccontr)
    assume "\<not> 0 \<le> float_exp a"
    then have "2 powi (float_exp a + 1) \<le> (2::real) powi 0" by (intro power_int_increasing) auto
    then show False using e a1 by simp
  qed
  have e53: "float_exp a < 53"
  proof (rule power_int_le_imp_less_exp [of "2::real"])
    show "2 powi float_exp a < (2::real) powi 53" using e a2 by linarith
  qed simp_all
  define k where "k = nat (52 - float_exp a)"
  have U: "ulp64 a = 1 / 2 ^ k"
    using e0 e53 unfolding ulp64_def k_def
    by (simp add: power_int_def power_one_over)
  have "a / ulp64 a = of_int (\<bar>n\<bar> * 2 ^ k)" unfolding U by (simp add: a_def)
  then have "rne (a / ulp64 a) = \<bar>n\<bar> * 2 ^ k" by (metis rne_int)
  then have "of_int (rne (a / ulp64 a)) * ulp64 a = of_int (\<bar>n\<bar> * 2 ^ k) * (1 / 2 ^ k)"
    by (simp only: U)
  also have "\<dots> = a" by (simp add: a_def)
  finally have "of_int (rne (a / ulp64 a)) * ulp64 a = a" .
  then show ?thesis using False unfolding fl64_def a_def
    by (cases "0 < n") (auto simp: abs_if)
qed simp

lemma moderate_normal:
  assumes "1 / 2 ^ 20 \<le> \<bar>x :: real\<bar>" "\<bar>x\<bar> \<le> 2 ^ 60"
  shows "2 powi (-1000) \<le> \<bar>x\<bar> \<and> \<bar>x\<bar> < 2 powi 1000"
proof
  have "(2::real) powi (-1000) \<le> 1 / 2 ^ 20" by (simp add: power_int_minus)
  then show "2 powi (-1000) \<le> \<bar>x\<bar>" using assms(1) by linarith
  have "(2::real) ^ 60 < 2 powi 1000" by simp
  then show "\<bar>x\<bar> < 2 powi 1000" using assms(2) by linarith
qed

lemma fl64_moderate:
  assumes "1 / 2 ^ 20 \<le> \<bar>x\<bar>" "\<bar>x\<bar> \<le> 2 ^ 60"
  shows "\<bar>fl64 x - x\<bar> \<le> \<bar>x\<bar> / 2 ^ 53"
  using moderate_normal [OF assms] by (intro fl64_rel_err) simp_all

section \<open>Truncation of a nearby value\<close>

lemma go_trunc_uminus: "go_trunc (- x) = - go_trunc x"
  by (simp add: go_trunc_def ceiling_def)

lemma go_trunc_near_pos:
  assumes q: "0 < q" and p: "0 < p" and d: "\<bar>d * of_int q - of_int p\<bar> < 1"
  shows "go_trunc d = p div q \<or> (q dvd p \<and> go_trunc d = p div q - 1)"
proof -
  define m where "m = p div q"
  define r where "r = p mod q"
  have pqr: "p = q * m + r" "0 \<le> r" "r < q" using q unfolding m_def r_def by simp_all
  have qr: "(0::real) < of_int q" using q by simp
  have dq: "of_int p - 1 < d * of_int q" "d * of_int q < of_int p + 1" using d by linarith+
  have "0 < d * of_int q" using dq(1) p by linarith
  then have "0 \<le> d" using qr by (simp add: zero_less_mult_iff)
  then have tr: "go_trunc d = \<lfloor>d\<rfloor>" by (rule go_trunc_nonneg)
  have "of_int p + 1 \<le> of_int q * (of_int m + 1 :: real)"
    using pqr by (simp flip: of_int_add of_int_mult of_int_le_iff) (simp add: algebra_simps)
  then have "d * of_int q < (of_int m + 1) * of_int q" using dq(2) by (simp add: algebra_simps)
  then have hi: "d < of_int m + 1" using qr by (simp add: mult_less_cancel_right)
  have "of_int q * (of_int m - 1 :: real) \<le> of_int p - 1"
    using pqr by (simp flip: of_int_add of_int_mult of_int_le_iff) (simp add: algebra_simps)
  then have "(of_int m - 1) * of_int q < d * of_int q" using dq(1) by (simp add: algebra_simps)
  then have lo: "of_int m - 1 < d" using qr by (simp add: mult_less_cancel_right)
  show ?thesis
  proof (cases "r = 0")
    case True
    then have "q dvd p" using pqr by simp
    moreover have "\<lfloor>d\<rfloor> = m \<or> \<lfloor>d\<rfloor> = m - 1"
      using hi lo by (auto simp: floor_eq_iff)
    ultimately show ?thesis using tr m_def by auto
  next
    case False
    then have "of_int q * (of_int m :: real) \<le> of_int p - 1"
      using pqr by (simp flip: of_int_add of_int_mult of_int_le_iff)
    then have "of_int m * of_int q < d * of_int q" using dq(1) by (simp add: algebra_simps)
    then have "of_int m \<le> d" using qr by (simp add: mult_less_cancel_right)
    then have "\<lfloor>d\<rfloor> = m" using hi by (simp add: floor_eq_iff)
    then show ?thesis using tr m_def by simp
  qed
qed

lemma go_trunc_near:
  assumes q: "0 < q" and d: "\<bar>d * of_int q - of_int p\<bar> < 1"
  shows "go_trunc d = go_div p q \<or> (q dvd p \<and> go_trunc d = go_div p q - sgn p)"
proof (cases p "0::int" rule: linorder_cases)
  case less
  have "\<bar>(- d) * of_int q - of_int (- p)\<bar> < 1" using d by (simp add: abs_minus_commute)
  from go_trunc_near_pos [OF q _ this] less
  have "go_trunc (- d) = (- p) div q \<or> (q dvd - p \<and> go_trunc (- d) = (- p) div q - 1)" by simp
  then show ?thesis using less q by (auto simp: go_trunc_uminus go_div_neg)
next
  case equal
  have "\<bar>d\<bar> * 1 \<le> \<bar>d\<bar> * of_int q" using q by (intro mult_left_mono) simp_all
  moreover have "\<bar>d\<bar> * of_int q < 1" using d equal q by (simp add: abs_mult)
  ultimately have "\<bar>d\<bar> < 1" by linarith
  then have "go_trunc d = 0" by (auto simp: go_trunc_def abs_less_iff floor_eq_iff ceiling_eq_iff)
  then show ?thesis using equal by (simp add: go_div_def)
next
  case greater
  then show ?thesis using go_trunc_near_pos [OF q greater d] q by simp
qed

lemma err_compose:
  "\<bar>d1 - y\<bar> \<le> e1 \<Longrightarrow> \<bar>d2 - d1 * c\<bar> \<le> e2 \<Longrightarrow> 0 \<le> c \<Longrightarrow> \<bar>d2 - y * c\<bar> \<le> e2 + c * (e1::real)"
proof -
  assume a: "\<bar>d1 - y\<bar> \<le> e1" "\<bar>d2 - d1 * c\<bar> \<le> e2" "0 \<le> c"
  have "d1 * c - y * c = c * (d1 - y)" by (simp add: algebra_simps)
  then have "\<bar>d1 * c - y * c\<bar> = c * \<bar>d1 - y\<bar>" using a(3) by (simp add: abs_mult)
  also have "\<dots> \<le> c * e1" using a(1,3) by (rule mult_left_mono)
  finally show ?thesis using a(2) by linarith
qed

lemma fl64_mul_range:
  assumes y: "1 / 2 ^ 16 \<le> \<bar>y\<bar>" "\<bar>y\<bar> \<le> 2 ^ 31" and c: "1 \<le> c" "c \<le> 2 ^ 16"
  shows "1 / 2 ^ 20 \<le> \<bar>fl64 y * c\<bar> \<and> \<bar>fl64 y * c\<bar> \<le> 2 ^ 60"
proof -
  have e: "\<bar>fl64 y - y\<bar> \<le> \<bar>y\<bar> / 2 ^ 53" using y by (intro fl64_moderate) simp_all
  have "\<bar>y\<bar> / 2 ^ 53 \<le> \<bar>y\<bar> / 2" by (rule divide_left_mono) simp_all
  note t = this e abs_triangle_ineq2 [of "fl64 y" y] abs_triangle_ineq2 [of y "fl64 y"]
    abs_minus_commute [of y "fl64 y"] abs_ge_zero [of y]
  have f: "\<bar>y\<bar> / 2 \<le> \<bar>fl64 y\<bar>" using t by linarith
  have f2: "\<bar>fl64 y\<bar> \<le> 2 * \<bar>y\<bar>" using t by linarith
  have "1 / 2 ^ 17 * 1 \<le> \<bar>fl64 y\<bar> * c" by (rule mult_mono) (use f y c in auto)
  moreover have "\<bar>fl64 y\<bar> * c \<le> 2 ^ 32 * 2 ^ 16" by (rule mult_mono) (use f2 y c in auto)
  moreover have "\<bar>fl64 y * c\<bar> = \<bar>fl64 y\<bar> * c" using c by (simp add: abs_mult)
  ultimately show ?thesis by simp
qed

text \<open>Two roundings of \<open>y * c\<close> err by at most about \<open>2^-52\<close> of its magnitude.\<close>

lemma fl64_mul_err:
  assumes y: "1 / 2 ^ 16 \<le> \<bar>y\<bar>" "\<bar>y\<bar> \<le> 2 ^ 31" and c: "1 \<le> c" "c \<le> 2 ^ 16"
  shows "\<bar>fl64 (fl64 y * c) - y * c\<bar> \<le> \<bar>y\<bar> * c * (2 + 1 / 2 ^ 53) / 2 ^ 53"
proof -
  define A where "A = \<bar>y\<bar> * c"
  have A: "1 / 2 ^ 16 \<le> A" "A \<le> 2 ^ 47"
  proof -
    have "1 / 2 ^ 16 * 1 \<le> \<bar>y\<bar> * c" by (rule mult_mono) (use y c in auto)
    then show "1 / 2 ^ 16 \<le> A" unfolding A_def by simp
    have "\<bar>y\<bar> * c \<le> 2 ^ 31 * 2 ^ 16" by (rule mult_mono) (use y c in auto)
    then show "A \<le> 2 ^ 47" unfolding A_def by simp
  qed
  have e1: "\<bar>fl64 y - y\<bar> \<le> \<bar>y\<bar> / 2 ^ 53" using y by (intro fl64_moderate) simp_all
  have "\<bar>fl64 y * c - y * c\<bar> \<le> 0 + c * (\<bar>y\<bar> / 2 ^ 53)"
    using err_compose [OF e1, of "fl64 y * c" c 0] c by simp
  then have z: "\<bar>fl64 y * c - y * c\<bar> \<le> A / 2 ^ 53" unfolding A_def by (simp add: mult.commute)
  have yc: "\<bar>y * c\<bar> = A" unfolding A_def using c by (simp add: abs_mult)
  have tri: "\<bar>fl64 y * c\<bar> \<le> A + A / 2 ^ 53" "A - A / 2 ^ 53 \<le> \<bar>fl64 y * c\<bar>"
    using z yc abs_triangle_ineq2 [of "fl64 y * c" "y * c"]
      abs_triangle_ineq3 [of "fl64 y * c" "y * c"] by (simp_all add: abs_le_iff)
  have zr1: "1 / 2 ^ 20 \<le> \<bar>fl64 y * c\<bar>" and zr2: "\<bar>fl64 y * c\<bar> \<le> 2 ^ 60"
    using fl64_mul_range [OF y c] by simp_all
  have "\<bar>fl64 (fl64 y * c) - y * c\<bar> \<le> \<bar>fl64 y * c\<bar> / 2 ^ 53 + c * (\<bar>y\<bar> / 2 ^ 53)"
    using err_compose [OF e1 fl64_moderate [OF zr1 zr2]] c by simp
  also have "\<dots> \<le> (A + A / 2 ^ 53) / 2 ^ 53 + A / 2 ^ 53"
    using tri(1) unfolding A_def by (simp add: divide_right_mono mult.commute)
  also have "\<dots> = A * (2 + 1 / 2 ^ 53) / 2 ^ 53" by (simp add: field_simps)
  finally show ?thesis unfolding A_def .
qed

lemma int_div_bounds:
  assumes b: "0 < b" "b \<le> 2 ^ 16" and a: "a \<noteq> 0" "\<bar>a\<bar> \<le> 2 ^ 31"
  shows "1 / 2 ^ 16 \<le> \<bar>of_int a / of_int b :: real\<bar> \<and> \<bar>of_int a / of_int b :: real\<bar> \<le> 2 ^ 31"
proof -
  have br: "1 \<le> (of_int b :: real)" "(of_int b :: real) \<le> 2 ^ 16" using b by (simp_all flip: of_int_le_iff)
  have ar: "1 \<le> \<bar>of_int a :: real\<bar>" "\<bar>of_int a :: real\<bar> \<le> 2 ^ 31"
    using a by (simp_all flip: of_int_abs)
  have yd: "\<bar>of_int a / of_int b :: real\<bar> = \<bar>of_int a\<bar> / of_int b" using br by simp
  have "1 / 2 ^ 16 \<le> 1 / (of_int b :: real)" using br by (intro divide_left_mono) simp_all
  also have "\<dots> \<le> \<bar>of_int a / of_int b\<bar>" unfolding yd using ar br by (intro divide_right_mono) simp_all
  finally have "1 / 2 ^ 16 \<le> \<bar>of_int a / of_int b :: real\<bar>" .
  moreover have "\<bar>of_int a / of_int b :: real\<bar> \<le> \<bar>of_int a\<bar>"
    unfolding yd using br ar by (simp add: divide_le_eq mult_le_cancel_left1)
  ultimately show ?thesis using ar by linarith
qed

text \<open>
  Dividing an integer by \<open>b\<close>, rounding, multiplying by \<open>c\<close> and rounding again stays
  within \<open>1 / b\<close> of the exact \<open>a * c / b\<close>, while \<open>|a| * c \<le> 2^47\<close>.
\<close>

lemma fl64_div_mul_err:
  assumes b: "0 < b" "b \<le> 2 ^ 16" and c: "0 < c" "c \<le> 2 ^ 16" and a: "\<bar>a\<bar> \<le> 2 ^ 31"
  shows "\<bar>fl64 (fl64 (of_int a / of_int b) * of_int c) * of_int b - of_int (a * c)\<bar> < (1::real)"
proof (cases "a = 0")
  case False
  define y where "y = (of_int a / of_int b :: real)"
  have br: "1 \<le> (of_int b :: real)" "(of_int b :: real) \<le> 2 ^ 16" using b by (simp_all flip: of_int_le_iff)
  have cr: "1 \<le> (of_int c :: real)" "(of_int c :: real) \<le> 2 ^ 16" using c by (simp_all flip: of_int_le_iff)
  have ar: "1 \<le> \<bar>of_int a :: real\<bar>" "\<bar>of_int a :: real\<bar> \<le> 2 ^ 31"
    using False a by (simp_all flip: of_int_abs)
  have yd: "\<bar>y\<bar> = \<bar>of_int a\<bar> / of_int b" unfolding y_def using br by simp
  have y1: "1 / 2 ^ 16 \<le> \<bar>y\<bar>" and y2: "\<bar>y\<bar> \<le> 2 ^ 31"
    using int_div_bounds [OF b False a] unfolding y_def by simp_all
  have e: "\<bar>fl64 (fl64 y * of_int c) - y * of_int c\<bar> \<le> \<bar>y\<bar> * of_int c * (2 + 1 / 2 ^ 53) / 2 ^ 53"
    using y1 y2 cr by (rule fl64_mul_err)
  have "\<bar>of_int a\<bar> * of_int c \<le> (2 ^ 31 * 2 ^ 16 :: real)"
    using ar cr by (intro mult_mono) simp_all
  moreover have "\<bar>y\<bar> * of_int c * of_int b = \<bar>of_int a\<bar> * of_int c" unfolding yd using br by simp
  ultimately have ac: "\<bar>y\<bar> * of_int c * of_int b \<le> 2 ^ 47" by (simp only:) simp
  have eq: "of_int (a * c) = y * of_int c * of_int b" unfolding y_def using br by simp
  have "\<bar>fl64 (fl64 y * of_int c) * of_int b - of_int (a * c)\<bar>
        = \<bar>fl64 (fl64 y * of_int c) - y * of_int c\<bar> * of_int b"
    unfolding eq using br by (simp only: abs_mult flip: left_diff_distrib)
  also have "\<dots> \<le> \<bar>y\<bar> * of_int c * of_int b * ((2 + 1 / 2 ^ 53) / 2 ^ 53)"
    using mult_right_mono [OF e, of "of_int b"] br by (simp add: field_simps)
  also have "\<dots> \<le> 2 ^ 47 * ((2 + 1 / 2 ^ 53) / 2 ^ 53)"
    using ac by (rule mult_right_mono) simp
  also have "\<dots> < 1" by simp
  finally show ?thesis unfolding y_def .
qed simp


section \<open>Evaluating the model\<close>

text \<open>These rules let \<open>simp\<close> run \<open>float_exp\<close> and \<open>rne\<close> on numerals.\<close>

lemma fexp_numeral [simp]:
  "fexp (numeral k) a = (if a < 1 then fexp (pred_numeral k) (2 * a) - 1
     else if 2 \<le> a then fexp (pred_numeral k) (a / 2) + 1 else 0)"
  by (simp add: numeral_eq_Suc)

lemma rne_frac:
  assumes "0 < q"
  shows "rne (of_int p / of_int q) = (if 2 * (p mod q) < q then p div q
            else if q < 2 * (p mod q) then p div q + 1 else if even (p div q) then p div q else p div q + 1)"
proof -
  have f: "\<lfloor>(of_int p / of_int q :: real)\<rfloor> = p div q" by (rule floor_divide_of_int_eq)
  have "of_int p / of_int q - of_int (p div q) = (of_int (p mod q) / of_int q :: real)"
    using assms by (simp add: field_simps flip: of_int_mult of_int_add)
  moreover have "(2 * of_int (p mod q) < (of_int q :: real)) \<longleftrightarrow> 2 * (p mod q) < q"
    "((of_int q :: real) < 2 * of_int (p mod q)) \<longleftrightarrow> q < 2 * (p mod q)"
    by (metis of_int_less_iff of_int_mult of_int_numeral)+
  ultimately have d: "(of_int p / of_int q - of_int (p div q) < (1::real) / 2 \<longleftrightarrow> 2 * (p mod q) < q)
       \<and> ((1::real) / 2 < of_int p / of_int q - of_int (p div q) \<longleftrightarrow> q < 2 * (p mod q))"
    using assms by (simp add: field_simps)
  show ?thesis unfolding rne_def Let_def f using d by simp
qed

lemma rne_numeral_div [simp]:
  "rne (numeral a / numeral b) = (let p = numeral a; q = numeral b in
     if 2 * (p mod q) < q then p div q else if q < 2 * (p mod q) then p div q + 1
     else if even (p div q) then p div q else p div q + 1)"
  using rne_frac [of "numeral b" "numeral a"] by (simp add: Let_def)

lemma fl64_numeral [simp]: "(numeral n :: int) < 2 ^ 53 \<Longrightarrow> fl64 (numeral n) = numeral n"
  using fl64_of_int [of "numeral n"] by simp

lemma fl64_1001_steps:
  "fl64 (1001 / 1000) = 2254051613498933 / 2251799813685248"
  "fl64 (281756451687366625 / 281474976710656) = 8804889115230207 / 8796093022208"
  by (simp_all add: fl64_def ulp64_def float_exp_def power_int_def power_one_over)

lemmas fl64_eval = fl64_def ulp64_def float_exp_def power_int_def power_one_over

lemma fl64_small: "fl64 1 = 1" "fl64 (1 / 2) = 1 / 2" "fl64 (3 / 2) = 3 / 2"
  by (simp_all add: fl64_eval)

lemma TickToTime64_zero [simp]: "TickToTime64 M 0 = 0"
  by (simp add: TickToTime64_def)

lemma TickToTime64_1000_small [simp]:
  "TickToTime64 1000 500 = 500" "TickToTime64 1000 1000 = 1000" "TickToTime64 1000 1500 = 1500"
  by (simp_all add: TickToTime64_def fl64_small)

lemma TimeToTick64_1001: "TimeToTick64 1000 1001 = 1000"
  by (simp add: TimeToTick64_def fl64_1001_steps go_trunc_def)

lemma TickToTime64_1001: "TickToTime64 1000 1001 = 1000"
  by (simp add: TickToTime64_def fl64_1001_steps go_trunc_def)

lemma fl64_1938_steps:
  "fl64 (323 / 40) = 2272910436938547 / 281474976710656"
  "fl64 (284113804617318375 / 35184372088832) = 8878556394291199 / 1099511627776"
  by (simp_all add: fl64_def ulp64_def float_exp_def power_int_def power_one_over)

lemma TickToTime64_1938: "TickToTime64 240 1938 = 8074"
  by (simp add: TickToTime64_def fl64_1938_steps go_trunc_def)

lemma fl64_4020_steps:
  "fl64 (201 / 50) = 1131529406376837 / 281474976710656"
  "fl64 (28288235159420925 / 35184372088832) = 7072058789855231 / 8796093022208"
  "fl64 (803 / 200) = 4520488125973135 / 1125899906842624"
  "fl64 (565061015746641875 / 140737488355328) = 8829078371041279 / 2199023255552"
  by (simp_all add: fl64_def ulp64_def float_exp_def power_int_def power_one_over)

lemma roundtrip64_4020: "TimeToTick64 200 4020 = 803" "TickToTime64 200 803 = 4014"
  by (simp_all add: TimeToTick64_def TickToTime64_def fl64_4020_steps go_trunc_def)

lemma Time64_TickToTime64: "Time64 MaxTPS s = TickToTime64 MaxTPS (Tick s)"
  by (simp add: Time64_def TickToTime64_def)

lemma SetTick_result:
  "SetTick MaxTPS rf s =
     (let wb = (case rf of None \<Rightarrow> -1800 | Some bt \<Rightarrow> min bt (-1800))
      in (wb, s\<lparr>Tick := TimeToTick64 MaxTPS wb - 1\<rparr>))"
  by (auto simp: SetTick_def min_def split: option.splits)

lemma fl64_uminus: "fl64 (- x) = - fl64 x"
  by (simp add: fl64_def sgn_minus)

lemma TimeToTick64_uminus: "TimeToTick64 M (- t) = - TimeToTick64 M t"
  by (simp add: TimeToTick64_def fl64_uminus go_trunc_uminus)

lemma TickToTime64_uminus: "TickToTime64 M (- k) = - TickToTime64 M k"
  by (simp add: TickToTime64_def fl64_uminus go_trunc_uminus)

section \<open>Monotonicity of rounding\<close>

lemma fl64_nonneg:
  assumes "0 \<le> x" shows "0 \<le> fl64 x"
proof -
  have "rne 0 \<le> rne (x / ulp64 x)" using assms by (intro rne_mono divide_nonneg_pos) simp_all
  then have "0 \<le> rne (x / ulp64 x)" by (simp add: rne_def)
  then show ?thesis using assms ulp64_pos [of x] by (simp add: fl64_def less_imp_le)
qed

text \<open>Between normal positives: with equal exponents rounding is monotone in the
  significand; otherwise the smaller rounds to at most \<open>2^(ex+1)\<close> and the larger to at
  least \<open>2^ey\<close>.\<close>

lemma fl64_mono_pos:
  assumes x: "2 powi (-1000) \<le> x" and xy: "x \<le> y" and y: "y < 2 powi 1000"
  shows "fl64 x \<le> fl64 y"
proof -
  have xr: "x < 2 powi 1000" and yr: "2 powi (-1000) \<le> y" using x xy y by linarith+
  have pos: "0 < x" "0 < y" using x xy by (auto intro: less_le_trans [rotated])
  define ex ey where "ex = float_exp x" and "ey = float_exp y"
  have cx: "2 powi ex \<le> x" "x < 2 * 2 powi ex"
    using float_exp_correct [OF x xr] unfolding ex_def by (simp_all add: power_int_add)
  have cy: "2 powi ey \<le> y" "y < 2 * 2 powi ey"
    using float_exp_correct [OF yr y] unfolding ey_def by (simp_all add: power_int_add)
  have Ux: "ulp64 x = 2 powi ex / 2 ^ 52" unfolding ex_def by (rule ulp64_normal [OF x xr])
  have Uy: "ulp64 y = 2 powi ey / 2 ^ 52" unfolding ey_def by (rule ulp64_normal [OF yr y])
  have fx: "fl64 x = of_int (rne (x / ulp64 x)) * ulp64 x"
    and fy: "fl64 y = of_int (rne (y / ulp64 y)) * ulp64 y"
    using pos by (simp_all add: fl64_def)
  have "ex \<le> ey"
  proof (rule ccontr)
    assume "\<not> ex \<le> ey"
    then have "2 powi (ey + 1) \<le> (2::real) powi ex" by (intro power_int_increasing) auto
    then show False using cx cy xy by (simp add: power_int_add)
  qed
  show ?thesis
  proof (cases "ex = ey")
    case True
    then have "ulp64 x = ulp64 y" using Ux Uy by simp
    moreover have "x / ulp64 y \<le> y / ulp64 y" using xy by (intro divide_right_mono) (simp_all add: less_imp_le)
    ultimately show ?thesis unfolding fx fy using rne_mono [of "x / ulp64 y" "y / ulp64 y"] by simp
  next
    case False
    with \<open>ex \<le> ey\<close> have "2 * 2 powi ex \<le> (2::real) powi ey"
      using power_int_increasing [of "ex + 1" ey "2::real"] by (simp add: power_int_add)
    moreover have "fl64 x \<le> of_int (2 ^ 53) * ulp64 x"
      unfolding fx using cx Ux by (intro rne_scaled_le) simp_all
    moreover have "of_int (2 ^ 52) * ulp64 y \<le> fl64 y"
      unfolding fy using cy Uy by (intro rne_scaled_ge) simp_all
    ultimately show ?thesis using Ux Uy by simp
  qed
qed

lemma fl64_mono:
  assumes xy: "x \<le> y" and rx: "fl64_range x" and ry: "fl64_range y"
  shows "fl64 x \<le> fl64 y"
proof (cases "0 < x")
  case True
  then show ?thesis using rx ry xy unfolding fl64_range_def by (auto intro: fl64_mono_pos)
next
  case False
  show ?thesis
  proof (cases "0 \<le> y")
    case True
    have "fl64 x \<le> 0" using fl64_nonneg [of "- x"] False by (simp add: fl64_uminus)
    then show ?thesis using fl64_nonneg [OF True] by linarith
  next
    case False
    then have "fl64 (- y) \<le> fl64 (- x)"
      using rx ry xy unfolding fl64_range_def by (auto intro: fl64_mono_pos)
    then show ?thesis by (simp add: fl64_uminus)
  qed
qed

section \<open>The conversions in integer terms\<close>

lemma TimeToTick64_conv:
  assumes "0 < M" "M \<le> 2 ^ 16" "\<bar>t\<bar> \<le> 2 ^ 31"
  shows "TimeToTick64 M t = go_trunc (fl64 (fl64 (of_int t / of_int 1000) * of_int M))"
proof -
  have "fl64 (of_int t) = of_int t" "fl64 (of_int M) = of_int M"
    using assms by (simp_all add: fl64_of_int)
  then show ?thesis by (simp add: TimeToTick64_def)
qed

lemma TickToTime64_conv:
  assumes "0 < M" "M \<le> 2 ^ 16" "\<bar>k\<bar> \<le> 2 ^ 31"
  shows "TickToTime64 M k = go_trunc (fl64 (fl64 (of_int k / of_int M) * of_int 1000))"
proof -
  have "fl64 (of_int k) = of_int k" "fl64 (of_int M) = of_int M"
    using assms by (simp_all add: fl64_of_int)
  then show ?thesis by (simp add: TickToTime64_def)
qed

lemma conv64_range:
  assumes b: "0 < b" "b \<le> 2 ^ 16" and c: "0 < c" "c \<le> 2 ^ 16" and a: "\<bar>a\<bar> \<le> 2 ^ 31"
  shows "fl64_range (of_int a / of_int b) \<and> fl64_range (fl64 (of_int a / of_int b) * of_int c)"
proof (cases "a = 0")
  case False
  define y where "y = (of_int a / of_int b :: real)"
  have y: "1 / 2 ^ 16 \<le> \<bar>y\<bar>" "\<bar>y\<bar> \<le> 2 ^ 31" using int_div_bounds [OF b False a] unfolding y_def by simp_all
  have cr: "1 \<le> (of_int c :: real)" "(of_int c :: real) \<le> 2 ^ 16" using c by (simp_all flip: of_int_le_iff)
  have "1 / 2 ^ 20 \<le> (1 / 2 ^ 16 :: real)" by simp
  then have "2 powi (-1000) \<le> \<bar>y\<bar> \<and> \<bar>y\<bar> < 2 powi 1000" using y by (intro moderate_normal) simp_all
  moreover have "2 powi (-1000) \<le> \<bar>fl64 y * of_int c\<bar> \<and> \<bar>fl64 y * of_int c\<bar> < 2 powi 1000"
    using fl64_mul_range [OF y cr] by (intro moderate_normal) simp_all
  ultimately show ?thesis unfolding fl64_range_def y_def by simp
qed (simp add: fl64_range_def)

text \<open>Dividing, multiplying and rounding preserve the order of the integers converted.\<close>

lemma conv64_mono:
  assumes b: "0 < b" "b \<le> 2 ^ 16" and c: "0 < c" "c \<le> 2 ^ 16"
    and a: "\<bar>a1\<bar> \<le> 2 ^ 31" "\<bar>a2\<bar> \<le> 2 ^ 31" "a1 \<le> a2"
  shows "go_trunc (fl64 (fl64 (of_int a1 / of_int b) * of_int c))
         \<le> go_trunc (fl64 (fl64 (of_int a2 / of_int b) * of_int c))"
proof -
  note r1 = conv64_range [OF b c a(1)] and r2 = conv64_range [OF b c a(2)]
  have "of_int a1 / of_int b \<le> (of_int a2 / of_int b :: real)"
    using a(3) b(1) by (intro divide_right_mono) simp_all
  then have "fl64 (of_int a1 / of_int b) \<le> fl64 (of_int a2 / of_int b)"
    using r1 r2 by (intro fl64_mono) simp_all
  then have "fl64 (of_int a1 / of_int b) * of_int c \<le> fl64 (of_int a2 / of_int b) * of_int c"
    using c(1) by (intro mult_right_mono) simp_all
  then show ?thesis using r1 r2 by (intro go_trunc_mono fl64_mono) simp_all
qed

text \<open>Dividing by \<open>b\<close>, multiplying by \<open>c\<close>, each rounded, then truncating, gives Go's
  integer quotient of \<open>a * c\<close> by \<open>b\<close>, or one closer to zero when that quotient is exact.\<close>

lemma conv64_cases:
  assumes b: "0 < b" "b \<le> 2 ^ 16" and c: "0 < c" "c \<le> 2 ^ 16" and a: "\<bar>a\<bar> \<le> 2 ^ 31"
  shows "go_trunc (fl64 (fl64 (of_int a / of_int b) * of_int c)) = go_div (a * c) b
         \<or> (b dvd a * c \<and> go_trunc (fl64 (fl64 (of_int a / of_int b) * of_int c)) = go_div (a * c) b - sgn a)"
  using go_trunc_near [OF b(1) fl64_div_mul_err [OF b c a]] c(1) by (simp add: sgn_mult)

lemma TimeToTick64_cases:
  assumes M: "0 < M" "M \<le> 2 ^ 16" and t: "\<bar>t\<bar> \<le> 2 ^ 31"
  shows "TimeToTick64 M t = go_div (t * M) 1000
         \<or> (1000 dvd t * M \<and> TimeToTick64 M t = go_div (t * M) 1000 - sgn t)"
  using conv64_cases [of 1000 M t] TimeToTick64_conv [OF M t] M t by simp

lemma TickToTime64_cases:
  assumes M: "0 < M" "M \<le> 2 ^ 16" and k: "\<bar>k\<bar> \<le> 2 ^ 31"
  shows "TickToTime64 M k = go_div (k * 1000) M
         \<or> (M dvd k * 1000 \<and> TickToTime64 M k = go_div (k * 1000) M - sgn k)"
  using conv64_cases [of M 1000 k] TickToTime64_conv [OF M k] M k by simp

text \<open>At 1000 ticks per second the clock's time is the tick count, or one closer to zero.\<close>

lemma Time64_1000:
  "\<bar>Tick s\<bar> \<le> 2 ^ 31 \<Longrightarrow> Time64 1000 s = Tick s \<or> Time64 1000 s = Tick s - sgn (Tick s)"
  using TickToTime64_cases [of 1000 "Tick s"] by (auto simp: Time64_TickToTime64 go_div_mult_cancel)

text \<open>The round trip from a non-negative time: the tick count \<open>k\<close> and the time \<open>T\<close>
  back are Go's quotients, each possibly one lower, and the loss is bounded in integers.\<close>

lemma clock_roundtrip64_nonneg:
  assumes M: "0 < M" "M \<le> 1000" and t: "0 \<le> t" "t \<le> 2 ^ 31"
  shows "0 \<le> TickToTime64 M (TimeToTick64 M t) \<and> TickToTime64 M (TimeToTick64 M t) \<le> t
         \<and> M * (t - TickToTime64 M (TimeToTick64 M t)) \<le> 1000 + M"
proof -
  define q where "q = t * M div 1000"
  define r where "r = t * M mod 1000"
  have qr: "t * M = 1000 * q + r" "0 \<le> r" "r < 1000" unfolding q_def r_def by simp_all
  have tM: "0 \<le> t * M" "t * M \<le> t * 1000" using M t by (simp_all add: mult_left_mono)
  define k where "k = TimeToTick64 M t"
  have "k = q \<or> (r = 0 \<and> k = q - 1 \<and> 0 < t)"
    using TimeToTick64_cases [of M t] M t tM unfolding k_def q_def r_def
    by (cases "t = 0") (auto simp: dvd_eq_mod_eq_0)
  moreover have "1 \<le> q" if "r = 0" "0 < t"
  proof -
    have "0 < t * M" using that M by simp
    then show ?thesis using qr(1) that(1) by simp
  qed
  ultimately have kq: "k = q \<or> (r = 0 \<and> k = q - 1 \<and> 1 \<le> q)" by blast
  have k: "0 \<le> k" "1000 * k \<le> t * M" "\<bar>k\<bar> \<le> 2 ^ 31" using kq qr tM t by auto
  define E where "E = k * 1000 div M"
  define s where "s = k * 1000 mod M"
  have Es: "k * 1000 = M * E + s" "0 \<le> s" "s < M" unfolding E_def s_def using M by simp_all
  define T where "T = TickToTime64 M k"
  have "T = E \<or> (s = 0 \<and> T = E - 1 \<and> 0 < k)"
    using TickToTime64_cases [OF M(1) _ k(3)] M k(1) unfolding T_def E_def s_def
    by (cases "k = 0") (auto simp: dvd_eq_mod_eq_0)
  then have MT: "M * T = M * E \<or> (s = 0 \<and> M * T = M * E - M \<and> 0 < k)"
    by (auto simp: algebra_simps)
  have E0: "0 \<le> E" using Es k(1) M by (simp add: E_def pos_imp_zdiv_nonneg_iff)
  have "M \<le> M * E" if "s = 0" "0 < k"
  proof -
    have "M \<le> k * 1000" using that M by simp
    then show ?thesis using Es that by simp
  qed
  moreover have "M * (t - T) = t * M - M * T" by (simp add: algebra_simps)
  ultimately have "0 \<le> M * T \<and> M * T \<le> M * t \<and> M * (t - T) \<le> 1000 + M"
    using MT Es qr kq k E0 M by (auto simp: algebra_simps)
  then show ?thesis using M unfolding T_def k_def by (simp add: zero_le_mult_iff mult_le_cancel_left)
qed

section \<open>The float64 conversions against the exact ones\<close>

text \<open>C10. \<open>TimeToTick\<close> in float64, for times within \<open>\<plusminus>2^31\<close> ms and tick rates in
  \<open>1..2^16\<close>, returns the exact tick count, or one tick closer to zero; the latter only
  when \<open>time * MaxTPS\<close> is a multiple of 1000, i.e. when the exact result is an integer
  that the rounded \<open>float64(time) / 1000\<close> may fall just short of.\<close>

theorem TimeToTick64_close:
  assumes M: "0 < M" "M \<le> 2 ^ 16" and t: "\<bar>t\<bar> \<le> 2 ^ 31"
  shows "TimeToTick64 M t = TimeToTick M t
         \<or> (1000 dvd t * M \<and> TimeToTick64 M t = TimeToTick M t - sgn t)"
  using TimeToTick64_cases [OF M t] M by (simp add: TimeToTick_int)

text \<open>C11. \<open>TickToTime\<close> (and so \<open>ScenePlay.Time\<close>) in float64, for ticks within
  \<open>\<plusminus>2^31\<close> and tick rates in \<open>1..2^16\<close>, returns the exact time in ms, or one ms
  closer to zero; the latter only when \<open>MaxTPS\<close> divides \<open>tick * 1000\<close>.\<close>

theorem TickToTime64_close:
  assumes M: "0 < M" "M \<le> 2 ^ 16" and k: "\<bar>k\<bar> \<le> 2 ^ 31"
  shows "TickToTime64 M k = TickToTime M k
         \<or> (M dvd k * 1000 \<and> TickToTime64 M k = TickToTime M k - sgn k)"
  using TickToTime64_cases [OF M k] M by (simp add: TickToTime_int)

text \<open>C9. Converting a time to ticks and back in float64, at tick rates in \<open>1..1000\<close>
  and for times within \<open>\<plusminus>2^31\<close> ms, never changes the sign, never moves away from
  zero, and loses at most one tick's duration plus one millisecond: one millisecond
  more than the exact conversions allow (\<open>Clock.clock_roundtrip_bound\<close> has a strict
  bound), and the witness reaches it.\<close>

theorem clock_roundtrip64_bound:
  assumes M: "0 < M" "M \<le> 1000" and t: "\<bar>t\<bar> \<le> 2 ^ 31"
  shows "0 \<le> t * TickToTime64 M (TimeToTick64 M t)
         \<and> \<bar>TickToTime64 M (TimeToTick64 M t)\<bar> \<le> \<bar>t\<bar>
         \<and> of_int \<bar>t - TickToTime64 M (TimeToTick64 M t)\<bar> \<le> 1000 / of_int M + (1::real)"
proof -
  have Mr: "(0::real) < of_int M" using M by simp
  have real: "of_int \<bar>d\<bar> \<le> 1000 / of_int M + (1::real)" if "M * \<bar>d\<bar> \<le> 1000 + M" for d
  proof -
    have "of_int (M * \<bar>d\<bar>) \<le> (of_int (1000 + M) :: real)"
      using that by (simp only: of_int_le_iff)
    then have "of_int M * of_int \<bar>d\<bar> \<le> (1000 + of_int M :: real)" by simp
    then show ?thesis using Mr by (simp add: field_simps)
  qed
  show ?thesis
  proof (cases "0 \<le> t")
    case True
    then show ?thesis using clock_roundtrip64_nonneg [OF M True] t real [of "t - TickToTime64 M (TimeToTick64 M t)"]
      by auto
  next
    case False
    have r: "TickToTime64 M (TimeToTick64 M t) = - TickToTime64 M (TimeToTick64 M (- t))"
      using TimeToTick64_uminus [of M "- t"] TickToTime64_uminus by simp
    have "\<bar>t - TickToTime64 M (TimeToTick64 M t)\<bar> = - t - TickToTime64 M (TimeToTick64 M (- t))"
      using clock_roundtrip64_nonneg [OF M, of "- t"] False t r by simp
    then show ?thesis using clock_roundtrip64_nonneg [OF M, of "- t"] False t r
        real [of "t - TickToTime64 M (TimeToTick64 M t)"]
      by (auto simp: mult_nonpos_nonneg)
  qed
qed

text \<open>C17. Spec section 8 requires \<open>TimeToTick\<close> to be monotonic non-decreasing. In
  float64, at tick rates in \<open>1..2^16\<close> and for times and ticks within \<open>\<plusminus>2^31\<close>, both
  \<open>TimeToTick\<close> and \<open>TickToTime\<close> are monotonic non-decreasing.\<close>

theorem clock_conversions_mono:
  assumes M: "0 < M" "M \<le> 2 ^ 16" and a: "\<bar>a\<bar> \<le> 2 ^ 31" and b: "\<bar>b\<bar> \<le> 2 ^ 31" and ab: "a \<le> b"
  shows "TimeToTick64 M a \<le> TimeToTick64 M b \<and> TickToTime64 M a \<le> TickToTime64 M b"
  unfolding TimeToTick64_conv [OF M a] TimeToTick64_conv [OF M b]
    TickToTime64_conv [OF M a] TickToTime64_conv [OF M b]
  using conv64_mono [of 1000 M a b] conv64_mono [of M 1000 a b] M a b ab by simp

theorem TimeToTick64_close_witness:
  "TimeToTick64 1000 1001 = TimeToTick 1000 1001 - 1 \<and> TimeToTick 1000 1001 = 1001"
  using TimeToTick64_close [of 1000 1001] TimeToTick64_1001 by (simp add: TimeToTick_def)

theorem TickToTime64_close_witness:
  "TickToTime64 240 1938 = TickToTime 240 1938 - 1 \<and> TickToTime 240 1938 = 8075"
  using TickToTime64_close [of 240 1938] TickToTime64_1938 by (simp add: TickToTime_def)

theorem clock_roundtrip64_bound_witness:
  "TickToTime64 200 (TimeToTick64 200 4020) = 4014
   \<and> of_int \<bar>4020 - TickToTime64 200 (TimeToTick64 200 4020)\<bar> = 1000 / of_int (200::int) + (1::real)
   \<and> of_int \<bar>4020 - TickToTime64 200 (TimeToTick64 200 4020)\<bar> \<le> 1000 / of_int (200::int) + (1::real)"
  using clock_roundtrip64_bound [of 200 4020] roundtrip64_4020 by simp

theorem clock_conversions_mono_witness:
  "TimeToTick64 1000 1000 \<le> TimeToTick64 1000 1001 \<and> TickToTime64 1000 1000 \<le> TickToTime64 1000 1001
   \<and> TimeToTick64 1000 1001 = 1000 \<and> TickToTime64 1000 1001 = 1000"
  using clock_conversions_mono [of 1000 1000 1001] TimeToTick64_1001 TickToTime64_1001 by simp

end
