(* ===== verification/Timeline.thy ===== *)
theory Timeline
  imports Float64
begin

text \<open>
  The timing-point timeline of \<open>src/mode/play.go\<close>: the chain of
  \<open>TransPoint\<close>s (type not under \<open>src/\<close>: its fields \<open>Time\<close>, \<open>BPM\<close>,
  \<open>BeatScale\<close>, \<open>Volume\<close> and \<open>Next\<close> are read at lines 65--66 and
  110--123), kept as an immutable arena (a list) with the active pointer as an
  index into it, \<open>SetInitTransPoint\<close>, \<open>UpdateTransPoint\<close>, \<open>BeatRatio\<close>
  and \<open>Speed\<close>.  Dereferencing a nil pointer is the panic \<open>NilDereference\<close>.
  \<open>GlobalVolume\<close> is the package variable \<open>mode.Volume\<close>.
\<close>

record trans_point =
  tp_Time :: ms
  BPM :: real
  BeatScale :: real
  tp_Volume :: real

record scene_play = play_clock +
  MainBPM :: real
  SpeedBase :: real
  chain :: "trans_point list"
  TransPoint :: nat
  LastVolume :: real
  Volume :: real

text \<open>The loop of \<open>SetInitTransPoint\<close> (lines 112--114).\<close>

function init_cursor :: "trans_point list \<Rightarrow> nat \<Rightarrow> go_panic + nat" where
  "init_cursor ps i =
     (if Suc i < length ps
      then (if tp_Time (ps ! i) = tp_Time (ps ! Suc i) then init_cursor ps (Suc i) else Inr i)
      else Inl NilDereference)"
  by pat_completeness auto
termination
  by (relation "measure (\<lambda>(ps, i). length ps - i)") auto

definition SetInitTransPoint :: "real \<Rightarrow> 'a scene_play_scheme \<Rightarrow> go_panic + 'a scene_play_scheme" where
  "SetInitTransPoint GlobalVolume s =
     (case init_cursor (chain s) 0 of
        Inl e \<Rightarrow> Inl e
      | Inr i \<Rightarrow> Inr (s\<lparr>TransPoint := i, Volume := GlobalVolume * tp_Volume (chain s ! i)\<rparr>))"

text \<open>The loop of \<open>UpdateTransPoint\<close> (lines 118--120).\<close>

function advance :: "trans_point list \<Rightarrow> ms \<Rightarrow> nat \<Rightarrow> nat" where
  "advance ps now i =
     (if Suc i < length ps \<and> tp_Time (ps ! Suc i) \<le> now then advance ps now (Suc i) else i)"
  by pat_completeness auto
termination
  by (relation "measure (\<lambda>(ps, now, i). length ps - i)") auto

definition UpdateTransPoint ::
  "int \<Rightarrow> real \<Rightarrow> 'a scene_play_scheme \<Rightarrow> go_panic + 'a scene_play_scheme" where
  "UpdateTransPoint MaxTPS GlobalVolume s =
     (if TransPoint s < length (chain s) then
        (let i = advance (chain s) (Time64 MaxTPS s) (TransPoint s);
             tp = chain s ! i;
             s1 = s\<lparr>TransPoint := i\<rparr>
         in Inr (if LastVolume s1 \<noteq> tp_Volume tp
                 then s1\<lparr>LastVolume := Volume s1, Volume := GlobalVolume * tp_Volume tp\<rparr>
                 else s1))
      else Inl NilDereference)"

text \<open>
  \<open>BeatRatio\<close> and \<open>Speed\<close> (lines 65--66).  A float64 division by zero
  yields an infinity or NaN; \<open>None\<close> stands for that non-finite result.
\<close>

definition BeatRatio :: "'a scene_play_scheme \<Rightarrow> go_panic + real option" where
  "BeatRatio s =
     (if TransPoint s < length (chain s)
      then Inr (if MainBPM s = 0 then None else Some (BPM (chain s ! TransPoint s) / MainBPM s))
      else Inl NilDereference)"

definition Speed :: "'a scene_play_scheme \<Rightarrow> go_panic + real option" where
  "Speed s =
     (case BeatRatio s of
        Inl e \<Rightarrow> Inl e
      | Inr r \<Rightarrow> Inr (map_option (\<lambda>br. SpeedBase s * br * BeatScale (chain s ! TransPoint s)) r))"

text \<open>
  The specification of the cursor: the index of the last timing point whose time
  has passed, counted over the whole chain, and never behind the cursor.
\<close>

definition active_index :: "trans_point list \<Rightarrow> ms \<Rightarrow> nat \<Rightarrow> nat" where
  "active_index ps now i = max i (length (filter (\<lambda>p. tp_Time p \<le> now) ps) - 1)"

definition timeline_inv :: "'a scene_play_scheme \<Rightarrow> bool" where
  "timeline_inv s \<longleftrightarrow> TransPoint s < length (chain s)"

declare init_cursor.simps [simp del] advance.simps [simp del]


subsection \<open>Cursor loops\<close>

lemma advance_step:
  "Suc i < length ps \<Longrightarrow> tp_Time (ps ! Suc i) \<le> now \<Longrightarrow> advance ps now i = advance ps now (Suc i)"
  by (simp add: advance.simps [of ps now i])

lemma advance_done:
  "\<not> (Suc i < length ps \<and> tp_Time (ps ! Suc i) \<le> now) \<Longrightarrow> advance ps now i = i"
  by (subst advance.simps) (simp only: if_False)

lemma advance_ge: "i \<le> advance ps now i"
proof (induction ps now i rule: advance.induct)
  case (1 ps now i)
  then show ?case
    by (cases "Suc i < length ps \<and> tp_Time (ps ! Suc i) \<le> now") (simp_all add: advance_step advance_done)
qed

lemma advance_lt: "i < length ps \<Longrightarrow> advance ps now i < length ps"
proof (induction ps now i rule: advance.induct)
  case (1 ps now i)
  then show ?case
    by (cases "Suc i < length ps \<and> tp_Time (ps ! Suc i) \<le> now") (simp_all add: advance_step advance_done)
qed

lemma advance_stop:
  "Suc (advance ps now i) < length ps \<Longrightarrow> now < tp_Time (ps ! Suc (advance ps now i))"
proof (induction ps now i rule: advance.induct)
  case (1 ps now i)
  then show ?case
    by (cases "Suc i < length ps \<and> tp_Time (ps ! Suc i) \<le> now") (simp_all add: advance_step advance_done)
qed

lemma advance_passed: "i < j \<Longrightarrow> j \<le> advance ps now i \<Longrightarrow> tp_Time (ps ! j) \<le> now"
proof (induction ps now i rule: advance.induct)
  case (1 ps now i)
  show ?case
  proof (cases "Suc i < length ps \<and> tp_Time (ps ! Suc i) \<le> now")
    case True
    with "1.prems" have "j \<le> advance ps now (Suc i)" by (simp add: advance_step)
    with "1.IH" "1.prems"(1) True show ?thesis by (cases "j = Suc i") auto
  next
    case False
    with "1.prems" show ?thesis by (simp add: advance_done)
  qed
qed

lemma advance_idem: "advance ps now (advance ps now i) = advance ps now i"
  by (rule advance_done) (use advance_stop in \<open>auto simp: not_le\<close>)

lemma sorted_filter_takeWhile:
  "sorted (map f xs) \<Longrightarrow> filter (\<lambda>x. f x \<le> c) xs = takeWhile (\<lambda>x. f x \<le> c) xs"
proof (induction xs)
  case (Cons a xs)
  show ?case
  proof (cases "f a \<le> c")
    case False
    with Cons.prems have "\<forall>x\<in>set xs. \<not> f x \<le> c" by auto
    with False show ?thesis by simp
  qed (use Cons in simp)
qed simp


lemma sorted_due:
  assumes srt: "sorted (map tp_Time ps)" and j: "j < length ps"
  shows "tp_Time (ps ! j) \<le> now \<longleftrightarrow> j < length (filter (\<lambda>p. tp_Time p \<le> now) ps)"
proof -
  let ?n = "length (takeWhile (\<lambda>p. tp_Time p \<le> now) ps)"
  have n: "length (filter (\<lambda>p. tp_Time p \<le> now) ps) = ?n"
    using srt by (simp add: sorted_filter_takeWhile)
  show ?thesis
  proof
    assume due: "tp_Time (ps ! j) \<le> now"
    show "j < length (filter (\<lambda>p. tp_Time p \<le> now) ps)"
    proof (rule ccontr)
      assume "\<not> ?thesis"
      then have nj: "?n \<le> j" using n by simp
      with j have nl: "?n < length ps" by simp
      then have "\<not> tp_Time (ps ! ?n) \<le> now" by (rule nth_length_takeWhile)
      moreover have "tp_Time (ps ! ?n) \<le> tp_Time (ps ! j)"
        using sorted_nth_mono [OF srt, of ?n j] nj j nl by simp
      ultimately show False using due by simp
    qed
  next
    assume "j < length (filter (\<lambda>p. tp_Time p \<le> now) ps)"
    then have "j < ?n" using n by simp
    then have "takeWhile (\<lambda>p. tp_Time p \<le> now) ps ! j \<in> set (takeWhile (\<lambda>p. tp_Time p \<le> now) ps)"
      by (rule nth_mem)
    moreover have "takeWhile (\<lambda>p. tp_Time p \<le> now) ps ! j = ps ! j"
      using \<open>j < ?n\<close> by (rule takeWhile_nth)
    ultimately show "tp_Time (ps ! j) \<le> now" by (metis set_takeWhileD)
  qed
qed

lemma advance_refines:
  assumes srt: "sorted (map tp_Time ps)" and i: "i < length ps"
  shows "advance ps now i = active_index ps now i"
proof -
  define a where "a = advance ps now i"
  define n where "n = length (filter (\<lambda>p. tp_Time p \<le> now) ps)"
  have ia: "i \<le> a" unfolding a_def by (rule advance_ge)
  have al: "a < length ps" unfolding a_def using i by (rule advance_lt)
  have lo: "n - 1 \<le> a"
  proof (cases "Suc a < length ps")
    case True
    then have "now < tp_Time (ps ! Suc a)" unfolding a_def by (rule advance_stop)
    with sorted_due [OF srt True, of now] show ?thesis by (simp add: n_def)
  next
    case False
    have "n \<le> length ps" unfolding n_def by simp
    with False show ?thesis by simp
  qed
  have hi: "a = i \<or> a < n"
  proof (cases "a = i")
    case False
    with ia have "i < a" by simp
    then have "tp_Time (ps ! a) \<le> now" unfolding a_def by (rule advance_passed) simp
    with sorted_due [OF srt al] show ?thesis by (simp add: n_def)
  qed simp
  from ia lo hi show ?thesis
    unfolding active_index_def a_def [symmetric] n_def [symmetric] by auto
qed


lemma init_cursor_step:
  "Suc i < length ps \<Longrightarrow> tp_Time (ps ! i) = tp_Time (ps ! Suc i) \<Longrightarrow> init_cursor ps i = init_cursor ps (Suc i)"
  by (subst init_cursor.simps) simp

lemma init_cursor_unfold:
  "init_cursor ps i =
     (if Suc i < length ps
      then (if tp_Time (ps ! i) = tp_Time (ps ! Suc i) then init_cursor ps (Suc i) else Inr i)
      else Inl NilDereference)"
  by (rule init_cursor.simps)

lemma init_cursor_Inl:
  "init_cursor ps i = Inl e \<Longrightarrow> i \<le> j \<Longrightarrow> j < length ps \<Longrightarrow> tp_Time (ps ! j) = tp_Time (ps ! i)"
proof (induction ps i rule: init_cursor.induct)
  case (1 ps i)
  consider (eq) "Suc i < length ps" "tp_Time (ps ! i) = tp_Time (ps ! Suc i)"
    | (neq) "Suc i < length ps" "tp_Time (ps ! i) \<noteq> tp_Time (ps ! Suc i)"
    | (last) "\<not> Suc i < length ps" by blast
  then show ?case
  proof cases
    case eq
    show ?thesis
    proof (cases "j = i")
      case False
      have "init_cursor ps (Suc i) = Inl e" using "1.prems"(1) eq by (simp add: init_cursor_step)
      moreover have "Suc i \<le> j" using "1.prems"(2) False by simp
      ultimately have "tp_Time (ps ! j) = tp_Time (ps ! Suc i)" using "1.IH" [OF eq] "1.prems"(3) by blast
      then show ?thesis using eq(2) by simp
    qed simp
  next
    case neq
    then have "init_cursor ps i = Inr i" by (subst init_cursor_unfold) simp
    with "1.prems"(1) show ?thesis by simp
  next
    case last
    with "1.prems"(2,3) have "j = i" by simp
    then show ?thesis by simp
  qed
qed

lemma init_cursor_all_eq:
  "(\<And>j. i \<le> j \<Longrightarrow> j < length ps \<Longrightarrow> tp_Time (ps ! j) = tp_Time (ps ! i)) \<Longrightarrow>
     init_cursor ps i = Inl NilDereference"
proof (induction ps i rule: init_cursor.induct)
  case (1 ps i)
  show ?case
  proof (cases "Suc i < length ps")
    case True
    have eq: "tp_Time (ps ! Suc i) = tp_Time (ps ! i)" using "1.prems" [of "Suc i"] True by simp
    have "init_cursor ps (Suc i) = Inl NilDereference"
    proof (rule "1.IH")
      show "Suc i < length ps" by (rule True)
      show "tp_Time (ps ! i) = tp_Time (ps ! Suc i)" using eq by simp
      fix j assume "Suc i \<le> j" "j < length ps"
      then have "tp_Time (ps ! j) = tp_Time (ps ! i)" using "1.prems" [of j] by simp
      then show "tp_Time (ps ! j) = tp_Time (ps ! Suc i)" using eq by simp
    qed
    with True eq show ?thesis by (simp add: init_cursor_step)
  next
    case False
    then show ?thesis by (subst init_cursor_unfold) simp
  qed
qed

lemma init_cursor_Inr:
  "init_cursor ps i = Inr k \<Longrightarrow>
     i \<le> k \<and> Suc k < length ps \<and> tp_Time (ps ! k) \<noteq> tp_Time (ps ! Suc k)
     \<and> (\<forall>j. i \<le> j \<and> j \<le> k \<longrightarrow> tp_Time (ps ! j) = tp_Time (ps ! i))"
proof (induction ps i rule: init_cursor.induct)
  case (1 ps i)
  consider (eq) "Suc i < length ps" "tp_Time (ps ! i) = tp_Time (ps ! Suc i)"
    | (neq) "Suc i < length ps" "tp_Time (ps ! i) \<noteq> tp_Time (ps ! Suc i)"
    | (last) "\<not> Suc i < length ps" by blast
  then show ?case
  proof cases
    case eq
    have "init_cursor ps (Suc i) = Inr k"
      using "1.prems" by (simp only: init_cursor_step [OF eq])
    note c = "1.IH" [OF eq this]
    note ih13 = c [THEN conjunct1] c [THEN conjunct2, THEN conjunct1]
      c [THEN conjunct2, THEN conjunct2, THEN conjunct1]
    note ih4 = c [THEN conjunct2, THEN conjunct2, THEN conjunct2]
    have "\<forall>j. i \<le> j \<and> j \<le> k \<longrightarrow> tp_Time (ps ! j) = tp_Time (ps ! i)"
    proof (intro allI impI)
      fix j assume j: "i \<le> j \<and> j \<le> k"
      show "tp_Time (ps ! j) = tp_Time (ps ! i)"
      proof (cases "j = i")
        case False
        with j have "Suc i \<le> j \<and> j \<le> k" by simp
        with ih4 have "tp_Time (ps ! j) = tp_Time (ps ! Suc i)" by blast
        with eq(2) show ?thesis by simp
      qed simp
    qed
    moreover have "i \<le> k" using ih13(1) by simp
    ultimately show ?thesis using ih13(2,3) by (intro conjI)
  next
    case neq
    then have "init_cursor ps i = Inr i" by (subst init_cursor_unfold) simp
    with "1.prems" have ki: "k = i" by simp
    have A: "i \<le> i \<and> Suc i < length ps \<and> tp_Time (ps ! i) \<noteq> tp_Time (ps ! Suc i)
        \<and> (\<forall>j. i \<le> j \<and> j \<le> i \<longrightarrow> tp_Time (ps ! j) = tp_Time (ps ! i))"
      using neq le_antisym by blast
    show ?thesis unfolding ki by (rule A)
  next
    case last
    then have "init_cursor ps i = Inl NilDereference" by (subst init_cursor_unfold) simp
    with "1.prems" show ?thesis by simp
  qed
qed


lemma init_cursor_Inl_Nil: "init_cursor ps i = Inl e \<Longrightarrow> e = NilDereference"
proof (induction ps i rule: init_cursor.induct)
  case (1 ps i)
  then show ?case by (subst (asm) init_cursor_unfold) (auto split: if_splits)
qed

text \<open>C20. \<open>SetInitTransPoint\<close> panics (nil dereference) exactly when every timing point
  of the chain shares the first point's time, in particular for a chart with a single
  timing point: its loop dereferences \<open>Next\<close> without a nil check.\<close>

theorem SetInitTransPoint_panics_iff:
  "(\<exists>e. SetInitTransPoint GlobalVolume s = Inl e) \<longleftrightarrow>
     (\<forall>j < length (chain s). tp_Time (chain s ! j) = tp_Time (chain s ! 0))"
proof
  assume "\<exists>e. SetInitTransPoint GlobalVolume s = Inl e"
  then obtain e where "init_cursor (chain s) 0 = Inl e"
    by (auto simp: SetInitTransPoint_def split: sum.splits)
  then show "\<forall>j < length (chain s). tp_Time (chain s ! j) = tp_Time (chain s ! 0)"
    using init_cursor_Inl by blast
next
  assume "\<forall>j < length (chain s). tp_Time (chain s ! j) = tp_Time (chain s ! 0)"
  then have "init_cursor (chain s) 0 = Inl NilDereference"
    by (intro init_cursor_all_eq) blast
  then show "\<exists>e. SetInitTransPoint GlobalVolume s = Inl e"
    by (simp add: SetInitTransPoint_def)
qed

text \<open>C21. On success \<open>SetInitTransPoint\<close> selects the last point of the leading run of
  points sharing the first time, leaves a valid cursor and sets the applied volume to
  the global volume times that point's volume scale.\<close>

theorem SetInitTransPoint_result:
  assumes ok: "SetInitTransPoint GlobalVolume s = Inr s'"
  shows "timeline_inv s' \<and> chain s' = chain s
    \<and> tp_Time (chain s ! TransPoint s') \<noteq> tp_Time (chain s ! Suc (TransPoint s'))
    \<and> (\<forall>j \<le> TransPoint s'. tp_Time (chain s ! j) = tp_Time (hd (chain s)))
    \<and> Volume s' = GlobalVolume * tp_Volume (chain s ! TransPoint s')"
proof -
  obtain k where k: "init_cursor (chain s) 0 = Inr k"
    and s': "s' = s\<lparr>TransPoint := k, Volume := GlobalVolume * tp_Volume (chain s ! k)\<rparr>"
    using ok by (auto simp: SetInitTransPoint_def split: sum.splits)
  note c = init_cursor_Inr [OF k]
  have len: "Suc k < length (chain s)" and neq: "tp_Time (chain s ! k) \<noteq> tp_Time (chain s ! Suc k)"
    using c by blast+
  have hd0: "hd (chain s) = chain s ! 0" using len by (intro hd_conv_nth) auto
  have run: "\<forall>j \<le> k. tp_Time (chain s ! j) = tp_Time (hd (chain s))"
    unfolding hd0 using c [THEN conjunct2, THEN conjunct2, THEN conjunct2] by blast
  have "timeline_inv s' \<and> chain s' = chain s" using len unfolding s' timeline_inv_def by simp
  moreover have "TransPoint s' = k" "Volume s' = GlobalVolume * tp_Volume (chain s ! k)"
    unfolding s' by simp_all
  ultimately show ?thesis using neq run by simp
qed

lemma UpdateTransPoint_ok:
  "timeline_inv s \<Longrightarrow> UpdateTransPoint MaxTPS GlobalVolume s =
     Inr (let i = advance (chain s) (Time64 MaxTPS s) (TransPoint s); tp = chain s ! i
          in if LastVolume s \<noteq> tp_Volume tp
             then s\<lparr>TransPoint := i, LastVolume := Volume s, Volume := GlobalVolume * tp_Volume tp\<rparr>
             else s\<lparr>TransPoint := i\<rparr>)"
  by (simp add: UpdateTransPoint_def timeline_inv_def Let_def)

lemma UpdateTransPoint_Inr:
  "UpdateTransPoint MaxTPS GlobalVolume s = Inr s' \<Longrightarrow>
     timeline_inv s \<and> TransPoint s' = advance (chain s) (Time64 MaxTPS s) (TransPoint s)
     \<and> chain s' = chain s \<and> Tick s' = Tick s"
  by (auto simp: UpdateTransPoint_def timeline_inv_def Let_def split: if_splits)

subsection \<open>Beat ratio and speed\<close>

lemma BeatRatio_panics_iff: "(\<exists>e. BeatRatio s = Inl e) \<longleftrightarrow> \<not> timeline_inv s"
  by (simp add: BeatRatio_def timeline_inv_def)

lemma Speed_valid:
  "timeline_inv s \<Longrightarrow> Speed s =
     Inr (if MainBPM s = 0 then None
          else Some (SpeedBase s * (BPM (chain s ! TransPoint s) / MainBPM s) * BeatScale (chain s ! TransPoint s)))"
  by (simp add: Speed_def BeatRatio_def timeline_inv_def)

lemma Speed_None_iff: "timeline_inv s \<Longrightarrow> Speed s = Inr None \<longleftrightarrow> MainBPM s = 0"
  by (simp add: Speed_valid)

lemma BeatRatio_None_iff: "timeline_inv s \<Longrightarrow> BeatRatio s = Inr None \<longleftrightarrow> MainBPM s = 0"
  by (simp add: BeatRatio_def timeline_inv_def)

text \<open>C12. From a valid cursor \<open>UpdateTransPoint\<close> never panics, keeps the cursor valid,
  never moves it backwards and changes neither the chain nor the clock.\<close>

theorem UpdateTransPoint_total:
  assumes inv: "timeline_inv s"
  shows "\<exists>s'. UpdateTransPoint MaxTPS GlobalVolume s = Inr s' \<and> timeline_inv s'
           \<and> TransPoint s \<le> TransPoint s' \<and> chain s' = chain s \<and> Tick s' = Tick s"
proof -
  obtain s' where ok: "UpdateTransPoint MaxTPS GlobalVolume s = Inr s'"
    using UpdateTransPoint_ok [OF inv] by blast
  note r = UpdateTransPoint_Inr [OF ok]
  have "TransPoint s' < length (chain s')"
    using r advance_lt inv unfolding timeline_inv_def by simp
  with r ok show ?thesis unfolding timeline_inv_def by (simp add: advance_ge)
qed

text \<open>C3. On a chain sorted by time, \<open>UpdateTransPoint\<close> moves the cursor to the
  specified active point: the last point whose time has passed, never behind the
  cursor.\<close>

theorem UpdateTransPoint_refines:
  assumes srt: "sorted (map tp_Time (chain s))" and inv: "timeline_inv s"
    and ok: "UpdateTransPoint MaxTPS GlobalVolume s = Inr s'"
  shows "TransPoint s' = active_index (chain s) (Time64 MaxTPS s) (TransPoint s)"
  using UpdateTransPoint_Inr [OF ok] advance_refines [OF srt] inv
  unfolding timeline_inv_def by simp

text \<open>C22. \<open>UpdateTransPoint\<close> is idempotent on the active point: a second call at the
  same tick selects the same timing point.\<close>

theorem UpdateTransPoint_idempotent:
  assumes ok: "UpdateTransPoint MaxTPS GlobalVolume s = Inr s1"
  shows "\<exists>s2. UpdateTransPoint MaxTPS GlobalVolume s1 = Inr s2 \<and> TransPoint s2 = TransPoint s1"
proof -
  note r1 = UpdateTransPoint_Inr [OF ok]
  have inv1: "timeline_inv s1"
    using r1 advance_lt unfolding timeline_inv_def by simp
  obtain s2 where ok2: "UpdateTransPoint MaxTPS GlobalVolume s1 = Inr s2"
    using UpdateTransPoint_ok [OF inv1] by blast
  note r2 = UpdateTransPoint_Inr [OF ok2]
  have "Time64 MaxTPS s1 = Time64 MaxTPS s" using r1 by (simp add: Time64_def)
  with r1 r2 have "TransPoint s2 = TransPoint s1" by (simp add: advance_idem)
  with ok2 show ?thesis by blast
qed

subsection \<open>Concrete runs\<close>

text \<open>The specification's example: for the points (0, 120 BPM), (1000, 120 BPM) and
  (1000, 180 BPM, volume 0.5), the active point at 500 ms is the first and at 1500 ms
  the third (180 BPM).\<close>

theorem timeline_spec_example:
  "let ps = [\<lparr>tp_Time = 0, BPM = 120, BeatScale = 1, tp_Volume = 1\<rparr>,
             \<lparr>tp_Time = 1000, BPM = 120, BeatScale = 1, tp_Volume = 1\<rparr>,
             \<lparr>tp_Time = 1000, BPM = 180, BeatScale = 1, tp_Volume = 1 / 2\<rparr>];
       s0 = \<lparr>Tick = 0, MainBPM = 120, SpeedBase = 1, chain = ps, TransPoint = 0,
             LastVolume = 0, Volume = 0\<rparr>;
       r1 = bind_go (SetInitTransPoint 1 s0) (\<lambda>s. UpdateTransPoint 1000 1 (s\<lparr>Tick := 500\<rparr>));
       r2 = bind_go r1 (\<lambda>s. UpdateTransPoint 1000 1 (s\<lparr>Tick := 1500\<rparr>))
   in map_sum id (\<lambda>s. (TransPoint s, BPM (chain s ! TransPoint s))) r1 = Inr (0, 120)
    \<and> map_sum id (\<lambda>s. (TransPoint s, BPM (chain s ! TransPoint s), Volume s)) r2 = Inr (2, 180, 1 / 2)"
  by (simp add: SetInitTransPoint_def UpdateTransPoint_def init_cursor.simps advance.simps
      Time64_TickToTime64 Let_def)

text \<open>C14. \<open>UpdateTransPoint\<close> leaves the volume the specification asks for (the global
  volume times the active point's scale) exactly when that scale differs from
  \<open>LastVolume\<close> or the volume already had that value.  \<open>LastVolume\<close> holds an applied
  volume but is compared with a scale, so a change to a point whose scale equals the
  previous applied volume is lost.\<close>

theorem volume_change_lost:
  assumes ok: "UpdateTransPoint MaxTPS GlobalVolume s = Inr s'"
  shows "Volume s' = GlobalVolume * tp_Volume (chain s' ! TransPoint s')
         \<longleftrightarrow> LastVolume s \<noteq> tp_Volume (chain s' ! TransPoint s')
             \<or> Volume s = GlobalVolume * tp_Volume (chain s' ! TransPoint s')"
proof -
  have v: "TransPoint s < length (chain s)" using ok by (simp add: UpdateTransPoint_def split: if_splits)
  define i where "i = advance (chain s) (Time64 MaxTPS s) (TransPoint s)"
  have "UpdateTransPoint MaxTPS GlobalVolume s = Inr (if LastVolume s \<noteq> tp_Volume (chain s ! i)
      then s\<lparr>TransPoint := i, LastVolume := Volume s, Volume := GlobalVolume * tp_Volume (chain s ! i)\<rparr>
      else s\<lparr>TransPoint := i\<rparr>)"
    using v unfolding UpdateTransPoint_def Let_def i_def by simp
  with ok have s': "s' = (if LastVolume s \<noteq> tp_Volume (chain s ! i)
      then s\<lparr>TransPoint := i, LastVolume := Volume s, Volume := GlobalVolume * tp_Volume (chain s ! i)\<rparr>
      else s\<lparr>TransPoint := i\<rparr>)" by simp
  show ?thesis
  proof (cases "LastVolume s = tp_Volume (chain s ! i)")
    case True
    then show ?thesis using s' by simp
  next
    case False
    then show ?thesis using s' by simp
  qed
qed

subsection \<open>Witnesses\<close>

theorem SetInitTransPoint_panics_iff_witness:
  "\<exists>e. SetInitTransPoint 1 \<lparr>Tick = 0, MainBPM = 120, SpeedBase = 1,
      chain = [\<lparr>tp_Time = 0, BPM = 120, BeatScale = 1, tp_Volume = 1\<rparr>], TransPoint = 0,
      LastVolume = 0, Volume = 0\<rparr> = Inl e"
  using SetInitTransPoint_panics_iff [of 1 "\<lparr>Tick = 0, MainBPM = 120, SpeedBase = 1,
      chain = [\<lparr>tp_Time = 0, BPM = 120, BeatScale = 1, tp_Volume = 1\<rparr>], TransPoint = 0,
      LastVolume = 0, Volume = 0\<rparr>"] by simp

theorem SetInitTransPoint_result_witness:
  "let s = \<lparr>Tick = 0, MainBPM = 120, SpeedBase = 1,
      chain = [\<lparr>tp_Time = 0, BPM = 120, BeatScale = 1, tp_Volume = 1\<rparr>,
               \<lparr>tp_Time = 0, BPM = 150, BeatScale = 1, tp_Volume = 1\<rparr>,
               \<lparr>tp_Time = 800, BPM = 150, BeatScale = 1, tp_Volume = 1\<rparr>], TransPoint = 0,
      LastVolume = 0, Volume = 0\<rparr>
   in SetInitTransPoint 1 s = Inr (s\<lparr>TransPoint := 1, Volume := 1\<rparr>)
      \<and> timeline_inv (s\<lparr>TransPoint := 1, Volume := 1\<rparr>)
      \<and> tp_Time (chain s ! 1) \<noteq> tp_Time (chain s ! 2)"
proof -
  define s where "s = \<lparr>Tick = 0, MainBPM = 120, SpeedBase = 1,
      chain = [\<lparr>tp_Time = 0, BPM = 120, BeatScale = 1, tp_Volume = 1\<rparr>,
               \<lparr>tp_Time = 0, BPM = 150, BeatScale = 1, tp_Volume = 1\<rparr>,
               \<lparr>tp_Time = 800, BPM = 150, BeatScale = 1, tp_Volume = 1\<rparr>], TransPoint = 0,
      LastVolume = (0::real), Volume = 0\<rparr>"
  have ok: "SetInitTransPoint 1 s = Inr (s\<lparr>TransPoint := 1, Volume := 1\<rparr>)"
    by (simp add: s_def SetInitTransPoint_def init_cursor.simps)
  note r = SetInitTransPoint_result [OF ok]
  from ok r show ?thesis by (simp add: s_def)
qed

theorem UpdateTransPoint_total_witness:
  "let s = \<lparr>Tick = 1500, MainBPM = 120, SpeedBase = 1,
      chain = [\<lparr>tp_Time = 0, BPM = 120, BeatScale = 1, tp_Volume = 1\<rparr>,
               \<lparr>tp_Time = 1000, BPM = 180, BeatScale = 1, tp_Volume = 1\<rparr>], TransPoint = 0,
      LastVolume = 1, Volume = 1\<rparr>
   in timeline_inv s \<and> (\<exists>s'. UpdateTransPoint 1000 1 s = Inr s' \<and> timeline_inv s'
        \<and> TransPoint s \<le> TransPoint s' \<and> chain s' = chain s \<and> Tick s' = Tick s)"
  using UpdateTransPoint_total [of "\<lparr>Tick = 1500, MainBPM = 120, SpeedBase = 1,
      chain = [\<lparr>tp_Time = 0, BPM = 120, BeatScale = 1, tp_Volume = 1\<rparr>,
               \<lparr>tp_Time = 1000, BPM = 180, BeatScale = 1, tp_Volume = 1\<rparr>], TransPoint = 0,
      LastVolume = 1, Volume = 1\<rparr>" 1000 1]
  by (simp add: timeline_inv_def)

theorem volume_change_lost_witness:
  "let ps = [\<lparr>tp_Time = 0, BPM = 120, BeatScale = 1, tp_Volume = 1\<rparr>,
             \<lparr>tp_Time = 1000, BPM = 120, BeatScale = 1, tp_Volume = 1 / 2\<rparr>];
       s0 = \<lparr>Tick = 0, MainBPM = 120, SpeedBase = 1, chain = ps, TransPoint = 0,
             LastVolume = 0, Volume = 0\<rparr>;
       s2 = \<lparr>Tick = 1000, MainBPM = 120, SpeedBase = 1, chain = ps, TransPoint = 0,
             LastVolume = 1 / 2, Volume = 1 / 2\<rparr>
   in bind_go (SetInitTransPoint (1 / 2) s0) (UpdateTransPoint 1000 (1 / 2)) = Inr (s2\<lparr>Tick := 0\<rparr>)
    \<and> UpdateTransPoint 1000 (1 / 2) s2 = Inr (s2\<lparr>TransPoint := 1\<rparr>)
    \<and> Volume (s2\<lparr>TransPoint := 1\<rparr>) \<noteq> 1 / 2 * tp_Volume (chain (s2\<lparr>TransPoint := 1\<rparr>) ! 1)"
proof -
  define ps where "ps = [\<lparr>tp_Time = 0, BPM = 120, BeatScale = 1, tp_Volume = 1\<rparr>,
             \<lparr>tp_Time = 1000, BPM = 120, BeatScale = 1, tp_Volume = 1 / 2 :: real\<rparr>]"
  define s2 :: scene_play where "s2 = \<lparr>Tick = 1000, MainBPM = 120, SpeedBase = 1, chain = ps,
      TransPoint = 0, LastVolume = 1 / 2, Volume = 1 / 2\<rparr>"
  have run: "bind_go (SetInitTransPoint (1 / 2) \<lparr>Tick = 0, MainBPM = 120, SpeedBase = 1, chain = ps,
      TransPoint = 0, LastVolume = 0, Volume = 0\<rparr>) (UpdateTransPoint 1000 (1 / 2)) = Inr (s2\<lparr>Tick := 0\<rparr>)"
    by (simp add: ps_def s2_def SetInitTransPoint_def UpdateTransPoint_def init_cursor.simps
        advance.simps Time64_TickToTime64)
  have ok: "UpdateTransPoint 1000 (1 / 2) s2 = Inr (s2\<lparr>TransPoint := 1\<rparr>)"
    by (simp add: ps_def s2_def UpdateTransPoint_def advance.simps Time64_TickToTime64)
  note volume_change_lost [OF ok]
  then have "Volume (s2\<lparr>TransPoint := 1\<rparr>) \<noteq> 1 / 2 * tp_Volume (chain (s2\<lparr>TransPoint := 1\<rparr>) ! 1)"
    by (simp add: s2_def ps_def)
  with run ok show ?thesis by (simp add: Let_def ps_def s2_def)
qed

theorem UpdateTransPoint_refines_witness:
  "let s = \<lparr>Tick = 1500, MainBPM = 120, SpeedBase = 1,
      chain = [\<lparr>tp_Time = 0, BPM = 120, BeatScale = 1, tp_Volume = 1\<rparr>,
               \<lparr>tp_Time = 1000, BPM = 120, BeatScale = 1, tp_Volume = 1\<rparr>,
               \<lparr>tp_Time = 1000, BPM = 180, BeatScale = 1, tp_Volume = 1\<rparr>], TransPoint = 0,
      LastVolume = 1, Volume = 1\<rparr>
   in sorted (map tp_Time (chain s)) \<and> timeline_inv s
      \<and> UpdateTransPoint 1000 1 s = Inr (s\<lparr>TransPoint := 2\<rparr>)
      \<and> TransPoint (s\<lparr>TransPoint := 2\<rparr>) = active_index (chain s) (Time64 1000 s) (TransPoint s)"
proof -
  define s where "s = \<lparr>Tick = 1500, MainBPM = 120, SpeedBase = 1,
      chain = [\<lparr>tp_Time = 0, BPM = 120, BeatScale = 1, tp_Volume = 1\<rparr>,
               \<lparr>tp_Time = 1000, BPM = 120, BeatScale = 1, tp_Volume = 1\<rparr>,
               \<lparr>tp_Time = 1000, BPM = 180, BeatScale = 1, tp_Volume = 1\<rparr>], TransPoint = 0,
      LastVolume = (1::real), Volume = 1\<rparr>"
  have srt: "sorted (map tp_Time (chain s))" and inv: "timeline_inv s"
    by (simp_all add: s_def timeline_inv_def)
  have ok: "UpdateTransPoint 1000 1 s = Inr (s\<lparr>TransPoint := 2\<rparr>)"
    by (simp add: s_def UpdateTransPoint_def advance.simps Time64_TickToTime64)
  note UpdateTransPoint_refines [OF srt inv ok]
  with srt inv ok show ?thesis by (simp add: s_def)
qed

theorem UpdateTransPoint_idempotent_witness:
  "let s = \<lparr>Tick = 1500, MainBPM = 120, SpeedBase = 1,
      chain = [\<lparr>tp_Time = 0, BPM = 120, BeatScale = 1, tp_Volume = 1\<rparr>,
               \<lparr>tp_Time = 1000, BPM = 180, BeatScale = 1, tp_Volume = 1 / 2\<rparr>], TransPoint = 0,
      LastVolume = 1, Volume = 1\<rparr>
   in UpdateTransPoint 1000 1 s = Inr (s\<lparr>TransPoint := 1, Volume := 1 / 2\<rparr>)
      \<and> (\<exists>s2. UpdateTransPoint 1000 1 (s\<lparr>TransPoint := 1, Volume := 1 / 2\<rparr>) = Inr s2
            \<and> TransPoint s2 = 1)"
proof -
  define s where "s = \<lparr>Tick = 1500, MainBPM = 120, SpeedBase = 1,
      chain = [\<lparr>tp_Time = 0, BPM = 120, BeatScale = 1, tp_Volume = 1\<rparr>,
               \<lparr>tp_Time = 1000, BPM = 180, BeatScale = 1, tp_Volume = 1 / 2\<rparr>], TransPoint = 0,
      LastVolume = (1::real), Volume = 1\<rparr>"
  have ok: "UpdateTransPoint 1000 1 s = Inr (s\<lparr>TransPoint := 1, Volume := 1 / 2\<rparr>)"
    by (simp add: s_def UpdateTransPoint_def advance.simps Time64_TickToTime64)
  note UpdateTransPoint_idempotent [OF ok]
  with ok show ?thesis by (simp add: s_def)
qed

end
