(* ===== verification/Replay.thy ===== *)
theory Replay
  imports Prelude
begin

text \<open>
  The replay listener of \<open>src/mode/piano/replay.go\<close>.  \<open>NewReplayListener\<close>
  returns a closure over the index \<open>i\<close>, the elapsed time \<open>t\<close> and the
  threshold \<open>next\<close>; here that captured state is the record \<open>replay_listener\<close>
  (fields \<open>rl_i\<close>, \<open>rl_t\<close>, \<open>rl_next\<close>) and one invocation of the closure is
  \<open>listener_call\<close>.  Replay actions (\<open>osr.Action\<close>, not under \<open>src/\<close>) carry
  the wait \<open>W\<close> (int64 milliseconds) and the key state \<open>X\<close> (a float64 read
  with \<open>int(...)\<close>); the listener is built from the already trimmed actions
  (\<open>f.TrimmedActions()\<close>).  Out-of-range slice accesses are the panic
  \<open>IndexOutOfRange\<close>, \<open>make\<close> with a negative length is \<open>MakeSliceLen\<close>.
\<close>

record osr_action =
  W :: int
  X :: real

record replay_listener =
  actions :: "osr_action list"
  keyCount :: int
  rl_i :: nat
  rl_t :: int
  rl_next :: int

text \<open>The sentinel appended at line 9: \<open>osr.Action{W: 2e9}\<close>.\<close>

definition sentinel :: osr_action where
  "sentinel = \<lparr>W = 2000000000, X = 0\<rparr>"

definition NewReplayListener :: "osr_action list \<Rightarrow> int \<Rightarrow> int \<Rightarrow> go_panic + replay_listener" where
  "NewReplayListener trimmed kc waitBefore =
     (let acts = trimmed @ [sentinel]
      in if length acts < 2 then Inl IndexOutOfRange
         else Inr \<lparr>actions = acts, keyCount = kc, rl_i = 0, rl_t = waitBefore,
                   rl_next = 0 + 1 + W (acts ! 0) + W (acts ! 1)\<rparr>)"

text \<open>The bit loop of lines 19--25: bit \<open>k\<close> of the mask sets \<open>pressed[k]\<close>.\<close>

function decode_loop :: "int \<Rightarrow> nat \<Rightarrow> bool list \<Rightarrow> go_panic + bool list" where
  "decode_loop x k pressed =
     (if 0 < x then
        (if x mod 2 = 1 then
           (if k < length pressed then decode_loop (x div 2) (Suc k) (pressed[k := True])
            else Inl IndexOutOfRange)
         else decode_loop (x div 2) (Suc k) pressed)
      else Inr pressed)"
  by pat_completeness auto
termination
  by (relation "measure (\<lambda>(x, k, p). nat x)") auto

definition decode_keys :: "int \<Rightarrow> real \<Rightarrow> go_panic + bool list" where
  "decode_keys kc xf =
     (if kc < 0 then Inl MakeSliceLen
      else decode_loop (go_trunc xf) 0 (replicate (nat kc) False))"

text \<open>One call of the closure (lines 13--27).\<close>

definition listener_call :: "replay_listener \<Rightarrow> go_panic + bool list \<times> replay_listener" where
  "listener_call st =
     (let acts = actions st;
          adv = (if rl_next st \<le> rl_t st
                 then (if Suc (Suc (rl_i st)) < length acts
                       then Inr (Suc (rl_i st), rl_next st + W (acts ! Suc (Suc (rl_i st))))
                       else Inl IndexOutOfRange)
                 else Inr (rl_i st, rl_next st))
      in bind_go adv (\<lambda>(i, nxt).
           if i < length acts then
             bind_go (decode_keys (keyCount st) (X (acts ! i))) (\<lambda>pressed.
               Inr (pressed, st\<lparr>rl_i := i, rl_t := rl_t st + 1, rl_next := nxt\<rparr>))
           else Inl IndexOutOfRange))"

text \<open>The caller invokes the closure once per update (\<open>FetchPressed\<close>).\<close>

fun listener_run :: "replay_listener \<Rightarrow> nat \<Rightarrow> go_panic + bool list list" where
  "listener_run st 0 = Inr []"
| "listener_run st (Suc n) =
     bind_go (listener_call st) (\<lambda>(p, st'). map_sum id (Cons p) (listener_run st' n))"

subsection \<open>Specification\<close>

text \<open>
  Action \<open>j + 1\<close> becomes current when the elapsed time reaches
  \<open>threshold acts j\<close>: one millisecond after the cumulative wait up to it.  The
  ideal index at time \<open>t\<close> counts the thresholds reached, and the ideal run
  decodes, at each time, the action at the ideal index.
\<close>

definition threshold :: "osr_action list \<Rightarrow> nat \<Rightarrow> int" where
  "threshold acts j = 1 + sum_list (map W (take (Suc (Suc j)) acts))"

definition ideal_index :: "osr_action list \<Rightarrow> int \<Rightarrow> nat" where
  "ideal_index acts t = length (filter (\<lambda>j. threshold acts j \<le> t) [0..<length acts - 1])"

fun ideal_run :: "osr_action list \<Rightarrow> int \<Rightarrow> int \<Rightarrow> nat \<Rightarrow> go_panic + bool list list" where
  "ideal_run acts kc t 0 = Inr []"
| "ideal_run acts kc t (Suc n) =
     bind_go (decode_keys kc (X (acts ! ideal_index acts t))) (\<lambda>p.
       map_sum id (Cons p) (ideal_run acts kc (t + 1) n))"

definition positive_waits :: "osr_action list \<Rightarrow> bool" where
  "positive_waits acts \<longleftrightarrow> (\<forall>k < length acts. 2 \<le> k \<longrightarrow> 0 < W (acts ! k))"

text \<open>The waits the replay format allows (specification, section 6): non-negative.\<close>

definition nonneg_waits :: "osr_action list \<Rightarrow> bool" where
  "nonneg_waits acts \<longleftrightarrow> (\<forall>k < length acts. 2 \<le> k \<longrightarrow> 0 \<le> W (acts ! k))"

definition in_sync :: "replay_listener \<Rightarrow> bool" where
  "in_sync st \<longleftrightarrow> Suc (rl_i st) < length (actions st)
     \<and> rl_next st = threshold (actions st) (rl_i st)
     \<and> rl_i st = ideal_index (actions st) (rl_t st - 1)"

text \<open>Reading a key vector back as a mask: the inverse of the bit loop.\<close>

fun encode_keys :: "bool list \<Rightarrow> int" where
  "encode_keys [] = 0"
| "encode_keys (b # bs) = of_bool b + 2 * encode_keys bs"

declare decode_loop.simps [simp del]


subsection \<open>Decoding and synchronisation\<close>

lemma decode_loop_stop: "\<not> 0 < x \<Longrightarrow> decode_loop x k p = Inr p"
  by (subst decode_loop.simps) simp

lemma decode_loop_odd:
  "0 < x \<Longrightarrow> x mod 2 = 1 \<Longrightarrow> decode_loop x k p =
     (if k < length p then decode_loop (x div 2) (Suc k) (p[k := True]) else Inl IndexOutOfRange)"
  by (subst decode_loop.simps) simp

lemma decode_loop_even:
  "0 < x \<Longrightarrow> x mod 2 \<noteq> 1 \<Longrightarrow> decode_loop x k p = decode_loop (x div 2) (Suc k) p"
  by (subst decode_loop.simps) simp

lemma decode_loop_ok:
  "0 \<le> x \<Longrightarrow> x < 2 ^ (length p - k) \<Longrightarrow> k \<le> length p \<Longrightarrow>
     decode_loop x k p = Inr (map (\<lambda>j. p ! j \<or> (k \<le> j \<and> bit x (j - k))) [0..<length p])"
proof (induction x k p rule: decode_loop.induct)
  case (1 x k p)
  show ?case
  proof (cases "0 < x")
    case False
    with "1.prems" have "x = 0" by simp
    then show ?thesis by (simp add: decode_loop_stop map_nth)
  next
    case pos: True
    have k: "k < length p"
    proof (rule ccontr)
      assume "\<not> k < length p"
      with "1.prems"(3) have "length p - k = 0" by simp
      with "1.prems"(2) pos show False by simp
    qed
    have half: "x div 2 < 2 ^ (length p - Suc k)"
    proof -
      have "length p - k = Suc (length p - Suc k)" using k by simp
      with "1.prems"(2) have "x < 2 * 2 ^ (length p - Suc k)" by simp
      then show ?thesis by simp
    qed
    have bits: "\<And>j. k < j \<Longrightarrow> bit x (j - k) = bit (x div 2) (j - Suc k)"
      by (metis Suc_diff_Suc bit_Suc)
    show ?thesis
    proof (cases "x mod 2 = 1")
      case odd: True
      have "decode_loop x k p = decode_loop (x div 2) (Suc k) (p[k := True])"
        using pos odd k by (simp add: decode_loop_odd)
      also have "\<dots> = Inr (map (\<lambda>j. p[k := True] ! j \<or> (Suc k \<le> j \<and> bit (x div 2) (j - Suc k))) [0..<length p])"
        using "1.IH"(1) [OF pos odd k] "1.prems"(1) half k by simp
      also have "\<dots> = Inr (map (\<lambda>j. p ! j \<or> (k \<le> j \<and> bit x (j - k))) [0..<length p])"
      proof (intro arg_cong [where f = Inr] map_cong refl)
        fix j assume "j \<in> set [0..<length p]"
        then have j: "j < length p" by simp
        consider "j < k" | "j = k" | "k < j" by linarith
        then show "(p[k := True] ! j \<or> (Suc k \<le> j \<and> bit (x div 2) (j - Suc k)))
                 = (p ! j \<or> (k \<le> j \<and> bit x (j - k)))"
        proof cases
          case 2
          with j odd show ?thesis by (simp add: bit_0 odd_iff_mod_2_eq_one)
        next
          case 3
          with bits [OF 3] show ?thesis by simp
        qed simp
      qed
      finally show ?thesis .
    next
      case even: False
      have "decode_loop x k p = decode_loop (x div 2) (Suc k) p"
        using pos even by (simp add: decode_loop_even)
      also have "\<dots> = Inr (map (\<lambda>j. p ! j \<or> (Suc k \<le> j \<and> bit (x div 2) (j - Suc k))) [0..<length p])"
        using "1.IH"(2) [OF pos even] "1.prems"(1) half k by simp
      also have "\<dots> = Inr (map (\<lambda>j. p ! j \<or> (k \<le> j \<and> bit x (j - k))) [0..<length p])"
        using even bits by (auto simp: bit_0 odd_iff_mod_2_eq_one le_eq_less_or_eq Suc_le_eq)
      finally show ?thesis .
    qed
  qed
qed

lemma decode_loop_length: "decode_loop x k p = Inr q \<Longrightarrow> length q = length p"
proof (induction x k p rule: decode_loop.induct)
  case (1 x k p)
  then show ?case by (subst (asm) decode_loop.simps) (auto split: if_splits)
qed

lemma decode_loop_overflow:
  "2 ^ (length p - k) \<le> x \<Longrightarrow> decode_loop x k p = Inl IndexOutOfRange"
proof (induction x k p rule: decode_loop.induct)
  case (1 x k p)
  have pos: "0 < x" using "1.prems" by (rule order.strict_trans2 [rotated]) simp
  have half: "2 ^ (length p - Suc k) \<le> x div 2" if "k < length p \<or> x mod 2 \<noteq> 1"
  proof (cases "k < length p")
    case True
    then have "length p - k = Suc (length p - Suc k)" by simp
    with "1.prems" show ?thesis by simp
  next
    case False
    with that have "x mod 2 \<noteq> 1" by simp
    with pos have "2 \<le> x" by presburger
    with False show ?thesis by simp
  qed
  show ?case
  proof (cases "x mod 2 = 1")
    case odd: True
    show ?thesis
    proof (cases "k < length p")
      case True
      with pos odd half show ?thesis by (simp add: decode_loop_odd "1.IH"(1))
    qed (use pos odd in \<open>simp add: decode_loop_odd\<close>)
  next
    case False
    with pos half show ?thesis by (simp add: decode_loop_even "1.IH"(2))
  qed
qed


lemma decode_keys_bits:
  assumes kc: "0 \<le> kc" and lo: "0 \<le> go_trunc xf" and hi: "go_trunc xf < 2 ^ nat kc"
  shows "decode_keys kc xf = Inr (map (bit (go_trunc xf)) [0..<nat kc])"
proof -
  have "decode_loop (go_trunc xf) 0 (replicate (nat kc) False)
      = Inr (map (\<lambda>j. replicate (nat kc) False ! j \<or> (0 \<le> j \<and> bit (go_trunc xf) (j - 0)))
               [0..<length (replicate (nat kc) False)])"
    using lo hi by (intro decode_loop_ok) simp_all
  then show ?thesis using kc by (simp add: decode_keys_def)
qed

text \<open>C25. A key mask with a bit at or above \<open>keyCount\<close> panics with an index out of
  range.\<close>

theorem decode_keys_overflow:
  "0 \<le> kc \<Longrightarrow> 2 ^ nat kc \<le> go_trunc xf \<Longrightarrow> decode_keys kc xf = Inl IndexOutOfRange"
  by (simp add: decode_keys_def decode_loop_overflow)

lemma encode_keys_bits: "0 \<le> x \<Longrightarrow> x < 2 ^ n \<Longrightarrow> encode_keys (map (bit x) [0..<n]) = x"
proof (induction n arbitrary: x)
  case (Suc n)
  have "map (bit x) [0..<Suc n] = bit x 0 # map (bit (x div 2)) [0..<n]"
    by (simp add: upt_conv_Cons map_Suc_upt [symmetric] bit_Suc del: upt_Suc)
  moreover have "encode_keys (map (bit (x div 2)) [0..<n]) = x div 2"
    using Suc.prems by (intro Suc.IH) simp_all
  ultimately show ?case by (simp add: bit_0) presburger
qed simp

text \<open>C8. Decoding a mask below \<open>2 ^ keyCount\<close> yields \<open>keyCount\<close> flags, flag \<open>k\<close>
  being bit \<open>k\<close> of the mask, and reading the flags back gives the mask.\<close>

theorem decode_keys_roundtrip:
  assumes "0 \<le> kc" and "0 \<le> x" and "x < 2 ^ nat kc"
  shows "\<exists>p. decode_keys kc (of_int x) = Inr p \<and> length p = nat kc \<and> encode_keys p = x
             \<and> (\<forall>k < nat kc. p ! k = bit x k)"
  using assms decode_keys_bits [of kc "of_int x"] encode_keys_bits [of x "nat kc"] by simp


lemma threshold_Suc:
  "Suc (Suc (Suc j)) \<le> length acts \<Longrightarrow>
     threshold acts (Suc j) = threshold acts j + W (acts ! Suc (Suc j))"
  by (simp add: threshold_def take_Suc_conv_app_nth [of "Suc (Suc j)"])

lemma threshold_strict_mono:
  assumes pw: "positive_waits acts" and jk: "j < k" and k: "Suc k < length acts"
  shows "threshold acts j < threshold acts k"
  using jk k
proof (induction k)
  case (Suc k)
  have w: "0 < W (acts ! Suc (Suc k))"
    using pw Suc.prems(2) unfolding positive_waits_def by simp
  have step: "threshold acts (Suc k) = threshold acts k + W (acts ! Suc (Suc k))"
    using Suc.prems(2) by (intro threshold_Suc) simp
  show ?case
  proof (cases "j = k")
    case False
    with Suc.prems have "threshold acts j < threshold acts k" by (intro Suc.IH) simp_all
    with w step show ?thesis by simp
  qed (use w step in simp)
qed simp

lemma threshold_mono:
  assumes nn: "nonneg_waits acts" and jk: "j \<le> k" and k: "Suc k < length acts"
  shows "threshold acts j \<le> threshold acts k"
  using jk k
proof (induction k)
  case (Suc k)
  have w: "0 \<le> W (acts ! Suc (Suc k))"
    using nn Suc.prems(2) unfolding nonneg_waits_def by simp
  have step: "threshold acts (Suc k) = threshold acts k + W (acts ! Suc (Suc k))"
    using Suc.prems(2) by (intro threshold_Suc) simp
  show ?case
  proof (cases "j = Suc k")
    case False
    with Suc.prems have "threshold acts j \<le> threshold acts k" by (intro Suc.IH) simp_all
    with w step show ?thesis by simp
  qed simp
qed simp

lemma positive_nonneg_waits: "positive_waits acts \<Longrightarrow> nonneg_waits acts"
  by (auto simp: positive_waits_def nonneg_waits_def less_imp_le)

text \<open>Every threshold up to \<open>j\<close> reached: the ideal index is past \<open>j\<close>.\<close>

lemma ideal_index_prefix:
  assumes j: "Suc j < length acts" and due: "\<forall>i \<le> j. threshold acts i \<le> t"
  shows "j < ideal_index acts t"
proof -
  have "[0..<Suc j] = filter (\<lambda>i. threshold acts i \<le> t) [0..<Suc j]"
    using due by (intro filter_True [symmetric]) auto
  moreover have "[0..<length acts - 1] = [0..<Suc j] @ [Suc j..<length acts - 1]"
  proof -
    have "length acts - 1 = Suc j + (length acts - 1 - Suc j)" using j by simp
    then show ?thesis by (metis upt_add_eq_append zero_le)
  qed
  ultimately have "length (filter (\<lambda>i. threshold acts i \<le> t) [0..<length acts - 1]) \<ge> Suc j"
    by (metis filter_append length_append length_upt le_add1 minus_nat.diff_0)
  then show ?thesis by (simp add: ideal_index_def)
qed

lemma ideal_index_gt:
  assumes pw: "positive_waits acts" and j: "Suc j < length acts" and due: "threshold acts j \<le> t"
  shows "j < ideal_index acts t"
proof (rule ideal_index_prefix [OF j], intro allI impI)
  fix i assume "i \<le> j"
  then have "threshold acts i \<le> threshold acts j"
    using threshold_mono [OF positive_nonneg_waits [OF pw] _ j] by simp
  with due show "threshold acts i \<le> t" by simp
qed

lemma ideal_index_le:
  assumes pw: "positive_waits acts" and j: "Suc j < length acts" and early: "t < threshold acts j"
  shows "ideal_index acts t \<le> j"
proof -
  have "filter (\<lambda>i. threshold acts i \<le> t) [j..<length acts - 1] = []"
  proof (rule filter_False, intro ballI)
    fix i assume "i \<in> set [j..<length acts - 1]"
    then have "j \<le> i" "Suc i < length acts" by auto
    then have "threshold acts j \<le> threshold acts i"
      using threshold_strict_mono [OF pw _ \<open>Suc i < length acts\<close>, of j] by (cases "i = j") auto
    with early show "\<not> threshold acts i \<le> t" by simp
  qed
  moreover have "[0..<length acts - 1] = [0..<j] @ [j..<length acts - 1]"
    using upt_add_eq_append [of 0 j "length acts - 1 - j"] j by simp
  ultimately have "filter (\<lambda>i. threshold acts i \<le> t) [0..<length acts - 1]
      = filter (\<lambda>i. threshold acts i \<le> t) [0..<j]" by simp
  then show ?thesis unfolding ideal_index_def by (metis length_filter_le length_upt minus_nat.diff_0)
qed

lemma ideal_index_eq:
  assumes pw: "positive_waits acts" and i: "Suc i < length acts"
    and lo: "i = 0 \<or> threshold acts (i - 1) \<le> t" and hi: "t < threshold acts i"
  shows "ideal_index acts t = i"
proof -
  have "ideal_index acts t \<le> i" using ideal_index_le [OF pw i hi] .
  moreover have "i \<le> ideal_index acts t"
  proof (cases i)
    case (Suc i')
    with lo have "threshold acts i' \<le> t" by simp
    with Suc i have "i' < ideal_index acts t" by (intro ideal_index_gt [OF pw]) simp_all
    with Suc show ?thesis by simp
  qed simp
  ultimately show ?thesis by simp
qed


lemma in_sync_bounds:
  assumes pw: "positive_waits (actions st)" and sy: "in_sync st"
  shows "rl_t st \<le> threshold (actions st) (rl_i st)"
    and "rl_i st = 0 \<or> threshold (actions st) (rl_i st - 1) \<le> rl_t st - 1"
proof -
  let ?a = "actions st" and ?i = "rl_i st" and ?t = "rl_t st"
  have i: "Suc ?i < length ?a" and idx: "?i = ideal_index ?a (?t - 1)"
    using sy unfolding in_sync_def by simp_all
  show "?t \<le> threshold ?a ?i"
  proof (rule ccontr)
    assume "\<not> ?thesis"
    then have "threshold ?a ?i \<le> ?t - 1" by simp
    then have "?i < ideal_index ?a (?t - 1)" by (rule ideal_index_gt [OF pw i])
    with idx show False by simp
  qed
  show "?i = 0 \<or> threshold ?a (?i - 1) \<le> ?t - 1"
  proof (rule ccontr)
    assume "\<not> ?thesis"
    then have pos: "0 < ?i" and early: "?t - 1 < threshold ?a (?i - 1)" by simp_all
    have "ideal_index ?a (?t - 1) \<le> ?i - 1" using i by (intro ideal_index_le [OF pw _ early]) simp
    with idx pos show False by simp
  qed
qed

lemma listener_call_sync:
  assumes pw: "positive_waits (actions st)" and sy: "in_sync st"
    and before: "rl_t st < threshold (actions st) (length (actions st) - 2)"
  shows "\<exists>st'. listener_call st =
             bind_go (decode_keys (keyCount st) (X (actions st ! ideal_index (actions st) (rl_t st))))
               (\<lambda>p. Inr (p, st'))
           \<and> in_sync st' \<and> actions st' = actions st \<and> keyCount st' = keyCount st
           \<and> rl_t st' = rl_t st + 1"
proof -
  let ?a = "actions st" and ?i = "rl_i st" and ?t = "rl_t st"
  have i: "Suc ?i < length ?a" and nx: "rl_next st = threshold ?a ?i"
    using sy unfolding in_sync_def by simp_all
  note b = in_sync_bounds [OF pw sy]
  show ?thesis
  proof (cases "rl_next st \<le> ?t")
    case True
    with b(1) nx have eq: "?t = threshold ?a ?i" by simp
    have i2: "Suc (Suc ?i) < length ?a"
    proof (rule ccontr)
      assume "\<not> ?thesis"
      with i have "?i = length ?a - 2" by simp
      with eq before show False by simp
    qed
    have nx': "rl_next st + W (?a ! Suc (Suc ?i)) = threshold ?a (Suc ?i)"
      using nx i2 by (simp add: threshold_Suc)
    have gt: "threshold ?a ?i < threshold ?a (Suc ?i)"
      using i2 by (intro threshold_strict_mono [OF pw]) simp_all
    have ideal: "ideal_index ?a ?t = Suc ?i"
      using i2 eq gt by (intro ideal_index_eq [OF pw]) simp_all
    define st' where "st' = st\<lparr>rl_i := Suc ?i, rl_t := ?t + 1, rl_next := threshold ?a (Suc ?i)\<rparr>"
    have call: "listener_call st = bind_go (decode_keys (keyCount st) (X (?a ! Suc ?i))) (\<lambda>p. Inr (p, st'))"
      using True i2 nx' by (simp add: listener_call_def st'_def Let_def)
    have "in_sync st'" using i2 ideal by (simp add: in_sync_def st'_def)
    with call ideal show ?thesis by (auto simp: st'_def)
  next
    case False
    with nx have early: "?t < threshold ?a ?i" by simp
    have ideal: "ideal_index ?a ?t = ?i"
    proof (rule ideal_index_eq [OF pw i])
      show "?i = 0 \<or> threshold ?a (?i - 1) \<le> ?t" using b(2) by auto
    qed (rule early)
    define st' where "st' = st\<lparr>rl_t := ?t + 1\<rparr>"
    have call: "listener_call st = bind_go (decode_keys (keyCount st) (X (?a ! ?i))) (\<lambda>p. Inr (p, st'))"
      using False i by (simp add: listener_call_def st'_def Let_def)
    have "in_sync st'" using i nx ideal by (simp add: in_sync_def st'_def)
    with call ideal show ?thesis by (auto simp: st'_def)
  qed
qed

lemma listener_run_sync:
  assumes "positive_waits (actions st)" and "in_sync st"
    and "rl_t st + int n \<le> threshold (actions st) (length (actions st) - 2)"
  shows "listener_run st n = ideal_run (actions st) (keyCount st) (rl_t st) n"
  using assms
proof (induction n arbitrary: st)
  case (Suc n)
  obtain st' where call: "listener_call st =
        bind_go (decode_keys (keyCount st) (X (actions st ! ideal_index (actions st) (rl_t st))))
          (\<lambda>p. Inr (p, st'))"
    and sy: "in_sync st'" and same: "actions st' = actions st" "keyCount st' = keyCount st"
    and t: "rl_t st' = rl_t st + 1"
    using listener_call_sync [OF Suc.prems(1,2)] Suc.prems(3) by auto
  have ih: "listener_run st' n = ideal_run (actions st) (keyCount st) (rl_t st + 1) n"
    using Suc.IH [of st'] Suc.prems(1,3) sy same t by simp
  show ?case
    by (cases "decode_keys (keyCount st) (X (actions st ! ideal_index (actions st) (rl_t st)))")
       (simp_all add: call ih)
qed simp


lemma threshold_0: "Suc (Suc 0) \<le> length acts \<Longrightarrow> threshold acts 0 = 1 + W (acts ! 0) + W (acts ! 1)"
proof -
  assume "Suc (Suc 0) \<le> length acts"
  then obtain a b rest where "acts = a # b # rest"
    by (metis Suc_le_length_iff)
  then show ?thesis by (simp add: threshold_def)
qed

lemma NewReplayListener_empty: "NewReplayListener [] kc waitBefore = Inl IndexOutOfRange"
  by (simp add: NewReplayListener_def)

lemma NewReplayListener_sync:
  assumes ne: "trimmed \<noteq> []" and pw: "positive_waits (trimmed @ [sentinel])"
    and start: "waitBefore \<le> threshold (trimmed @ [sentinel]) 0"
  shows "\<exists>st. NewReplayListener trimmed kc waitBefore = Inr st \<and> in_sync st
           \<and> actions st = trimmed @ [sentinel] \<and> keyCount st = kc \<and> rl_t st = waitBefore"
proof -
  let ?a = "trimmed @ [sentinel]"
  define st where "st = \<lparr>actions = ?a, keyCount = kc, rl_i = 0, rl_t = waitBefore,
                         rl_next = 0 + 1 + W (?a ! 0) + W (?a ! 1)\<rparr>"
  have len: "Suc (Suc 0) \<le> length ?a" using ne by (cases trimmed) simp_all
  have new: "NewReplayListener trimmed kc waitBefore = Inr st"
    using len ne by (simp add: NewReplayListener_def st_def Let_def)
  have nx: "rl_next st = threshold ?a 0"
    using threshold_0 [OF len] by (simp add: st_def)
  have "ideal_index ?a (waitBefore - 1) = 0"
    using len start ne by (intro ideal_index_eq [OF pw]) simp_all
  then have "in_sync st" using len nx ne by (simp add: in_sync_def st_def)
  with new show ?thesis by (simp add: st_def)
qed

text \<open>C2. The replay listener refines the ideal replay: when every wait after the
  first two actions is positive and the listener starts before the first threshold,
  each of the first \<open>n\<close> calls (before the sentinel is reached) returns the keys of
  the action whose cumulative threshold has last been reached.\<close>

theorem replay_listener_refines:
  assumes ne: "trimmed \<noteq> []" and pw: "positive_waits (trimmed @ [sentinel])"
    and start: "waitBefore \<le> threshold (trimmed @ [sentinel]) 0"
    and before: "waitBefore + int n \<le> threshold (trimmed @ [sentinel]) (length trimmed - 1)"
  shows "bind_go (NewReplayListener trimmed kc waitBefore) (\<lambda>st. listener_run st n)
           = ideal_run (trimmed @ [sentinel]) kc waitBefore n"
proof -
  obtain st where new: "NewReplayListener trimmed kc waitBefore = Inr st" and sy: "in_sync st"
    and st: "actions st = trimmed @ [sentinel]" "keyCount st = kc" "rl_t st = waitBefore"
    using NewReplayListener_sync [OF ne pw start] by blast
  have "length (trimmed @ [sentinel]) - 2 = length trimmed - 1" by simp
  then have "listener_run st n = ideal_run (trimmed @ [sentinel]) kc waitBefore n"
    using listener_run_sync [of st n] pw sy before st by simp
  with new show ?thesis by simp
qed

text \<open>C19. Once the elapsed time reaches the sentinel's threshold the next call panics
  (index out of range) instead of reporting all keys released.\<close>

theorem listener_sentinel_panics:
  assumes pw: "positive_waits (actions st)" and sy: "in_sync st"
    and reached: "rl_t st = threshold (actions st) (length (actions st) - 2)"
  shows "listener_call st = Inl IndexOutOfRange"
proof -
  let ?a = "actions st" and ?i = "rl_i st"
  have i: "Suc ?i < length ?a" and nx: "rl_next st = threshold ?a ?i"
    using sy unfolding in_sync_def by simp_all
  have le: "threshold ?a (length ?a - 2) \<le> threshold ?a ?i"
    using in_sync_bounds(1) [OF pw sy] reached by simp
  have "\<not> ?i < length ?a - 2"
  proof
    assume "?i < length ?a - 2"
    then have "threshold ?a ?i < threshold ?a (length ?a - 2)"
      using i by (intro threshold_strict_mono [OF pw]) simp_all
    with le show False by simp
  qed
  with i have last: "Suc (Suc ?i) = length ?a" by simp
  then have "?i = length ?a - 2" by simp
  then have "rl_next st \<le> rl_t st" using nx reached by simp
  with last show ?thesis by (simp add: listener_call_def Let_def)
qed

text \<open>The specification's example: mask 0b101 with three keys decodes to
  pressed, released, pressed.\<close>

lemma decode_keys_spec_example: "decode_keys 3 5 = Inr [True, False, True]"
  by (simp add: decode_keys_def decode_loop_stop decode_loop_odd decode_loop_even eval_nat_numeral)

text \<open>C26. The listener advances at most one action per call.  So when a wait is zero
  (the specification allows non-negative waits), at the call where the listener steps
  onto the zero-length action it reports that action's keys, although the ideal replay
  has already moved past it to a later action.\<close>

theorem replay_zero_wait_lag:
  assumes sync: "in_sync st" and due: "rl_next st \<le> rl_t st" and nn: "nonneg_waits (actions st)"
    and zero: "W (actions st ! Suc (Suc (rl_i st))) = 0"
    and room: "Suc (Suc (rl_i st)) < length (actions st)"
  shows "\<exists>st'. listener_call st
             = bind_go (decode_keys (keyCount st) (X (actions st ! Suc (rl_i st)))) (\<lambda>p. Inr (p, st'))
           \<and> rl_i st' = Suc (rl_i st) \<and> rl_t st' = rl_t st + 1
           \<and> Suc (rl_i st) < ideal_index (actions st) (rl_t st)"
proof -
  define i where "i = rl_i st"
  define acts where "acts = actions st"
  have th: "threshold acts i \<le> rl_t st" using sync due unfolding in_sync_def i_def acts_def by simp
  have "threshold acts (Suc i) = threshold acts i"
    using threshold_Suc [of i acts] room zero unfolding i_def acts_def by simp
  moreover have "threshold acts j \<le> rl_t st" if "j \<le> i" for j
    using th threshold_mono [OF nn [folded acts_def] that] room unfolding i_def acts_def by simp
  ultimately have "\<forall>j \<le> Suc i. threshold acts j \<le> rl_t st"
    using th by (auto simp: le_Suc_eq)
  then have ideal: "Suc i < ideal_index acts (rl_t st)"
    using room by (intro ideal_index_prefix) (simp_all add: i_def acts_def)
  define st' where "st' = st\<lparr>rl_i := Suc i, rl_t := rl_t st + 1, rl_next := rl_next st + W (acts ! Suc (Suc i))\<rparr>"
  have "listener_call st = bind_go (decode_keys (keyCount st) (X (acts ! Suc i))) (\<lambda>p. Inr (p, st'))"
    using due room unfolding st'_def i_def acts_def
    by (cases "decode_keys (keyCount st) (X (actions st ! Suc (rl_i st)))")
       (simp_all add: listener_call_def Let_def)
  then show ?thesis using ideal unfolding st'_def i_def acts_def by auto
qed

text \<open>C27. The specification makes a key count that is not positive a construction-time
  error.  \<open>NewReplayListener\<close> accepts a negative one, and then no call of the listener
  returns: every call panics, in \<open>make\<close> or earlier at the action index.\<close>

theorem replay_negative_keycount:
  assumes ne: "trimmed \<noteq> []" and neg: "kc < 0"
  shows "(\<exists>st. NewReplayListener trimmed kc wb = Inr st \<and> keyCount st = kc)
         \<and> (\<forall>st. keyCount st = kc \<longrightarrow>
               listener_call st = Inl MakeSliceLen \<or> listener_call st = Inl IndexOutOfRange)"
proof
  show "\<exists>st. NewReplayListener trimmed kc wb = Inr st \<and> keyCount st = kc"
    using ne by (simp add: NewReplayListener_def Let_def)
  show "\<forall>st. keyCount st = kc \<longrightarrow> listener_call st = Inl MakeSliceLen \<or> listener_call st = Inl IndexOutOfRange"
    using neg by (auto simp: listener_call_def Let_def decode_keys_def bind_go_def split: prod.splits sum.splits)
qed

subsection \<open>Witnesses\<close>

theorem replay_listener_refines_witness:
  "let trimmed = [\<lparr>W = 0, X = 1\<rparr>, \<lparr>W = 3, X = 2\<rparr>, \<lparr>W = 2, X = 3\<rparr>, \<lparr>W = 1, X = 0\<rparr>]
   in trimmed \<noteq> [] \<and> positive_waits (trimmed @ [sentinel])
    \<and> 0 \<le> threshold (trimmed @ [sentinel]) 0
    \<and> 0 + int 10 \<le> threshold (trimmed @ [sentinel]) (length trimmed - 1)
    \<and> bind_go (NewReplayListener trimmed 2 0) (\<lambda>st. listener_run st 10)
        = ideal_run (trimmed @ [sentinel]) 2 0 10"
proof -
  define trimmed where "trimmed = [\<lparr>W = 0, X = 1\<rparr>, \<lparr>W = 3, X = (2::real)\<rparr>, \<lparr>W = 2, X = 3\<rparr>, \<lparr>W = 1, X = 0\<rparr>]"
  have ne: "trimmed \<noteq> []" by (simp add: trimmed_def)
  have pw: "positive_waits (trimmed @ [sentinel])"
    unfolding positive_waits_def
  proof (intro allI impI)
    fix k assume "k < length (trimmed @ [sentinel])" "2 \<le> k"
    then have "k = 2 \<or> k = 3 \<or> k = 4" by (simp add: trimmed_def) linarith
    then show "0 < W ((trimmed @ [sentinel]) ! k)"
      by (auto simp: trimmed_def sentinel_def)
  qed
  have st: "0 \<le> threshold (trimmed @ [sentinel]) 0"
    and bf: "0 + int 10 \<le> threshold (trimmed @ [sentinel]) (length trimmed - 1)"
    by (simp_all add: trimmed_def threshold_def sentinel_def)
  note replay_listener_refines [OF ne pw st bf, of 2]
  with ne pw st bf show ?thesis by (simp add: trimmed_def)
qed

theorem decode_keys_roundtrip_witness:
  "0 \<le> (3::int) \<and> 0 \<le> (5::int) \<and> (5::int) < 2 ^ nat 3
   \<and> (\<exists>p. decode_keys 3 (of_int 5) = Inr p \<and> length p = nat 3 \<and> encode_keys p = 5
          \<and> (\<forall>k < nat 3. p ! k = bit (5::int) k))"
  using decode_keys_roundtrip [of 3 5] by simp

theorem decode_keys_overflow_witness:
  "0 \<le> (2::int) \<and> 2 ^ nat 2 \<le> go_trunc 5 \<and> decode_keys 2 5 = Inl IndexOutOfRange"
  using decode_keys_overflow [of 2 5] by simp

theorem listener_sentinel_panics_witness:
  "let st = \<lparr>actions = [\<lparr>W = 0, X = 1\<rparr>, \<lparr>W = 3, X = 2\<rparr>, sentinel], keyCount = 2,
             rl_i = 1, rl_t = 2000000004, rl_next = 2000000004\<rparr>
   in positive_waits (actions st) \<and> in_sync st
    \<and> rl_t st = threshold (actions st) (length (actions st) - 2)
    \<and> listener_call st = Inl IndexOutOfRange"
proof -
  define st where "st = \<lparr>actions = [\<lparr>W = 0, X = 1\<rparr>, \<lparr>W = 3, X = (2::real)\<rparr>, sentinel], keyCount = 2,
             rl_i = 1, rl_t = 2000000004, rl_next = 2000000004\<rparr>"
  have pw: "positive_waits (actions st)"
    unfolding positive_waits_def
  proof (intro allI impI)
    fix k assume "k < length (actions st)" "2 \<le> k"
    then have "k = 2" by (simp add: st_def)
    then show "0 < W (actions st ! k)" by (simp add: st_def sentinel_def)
  qed
  have sy: "in_sync st"
    by (simp add: st_def in_sync_def ideal_index_def threshold_def sentinel_def)
  have re: "rl_t st = threshold (actions st) (length (actions st) - 2)"
    by (simp add: st_def threshold_def sentinel_def)
  note listener_sentinel_panics [OF pw sy re]
  with pw sy re show ?thesis by (simp add: st_def)
qed


theorem replay_zero_wait_lag_witness:
  "let st = \<lparr>actions = [\<lparr>W = 0, X = 1\<rparr>, \<lparr>W = 3, X = 2\<rparr>, \<lparr>W = 0, X = 3\<rparr>, \<lparr>W = 2, X = 0\<rparr>, sentinel],
             keyCount = 2, rl_i = 0, rl_t = 4, rl_next = 4\<rparr>
   in in_sync st \<and> rl_next st \<le> rl_t st \<and> nonneg_waits (actions st)
    \<and> W (actions st ! Suc (Suc (rl_i st))) = 0 \<and> Suc (Suc (rl_i st)) < length (actions st)
    \<and> listener_call st = Inr ([False, True], st\<lparr>rl_i := 1, rl_t := 5\<rparr>)
    \<and> 1 < ideal_index (actions st) (rl_t st)"
proof -
  define st where "st = \<lparr>actions = [\<lparr>W = 0, X = 1\<rparr>, \<lparr>W = 3, X = 2\<rparr>, \<lparr>W = 0, X = 3\<rparr>, \<lparr>W = 2, X = 0 :: real\<rparr>, sentinel],
             keyCount = 2, rl_i = 0, rl_t = 4, rl_next = 4\<rparr>"
  have h: "in_sync st" "rl_next st \<le> rl_t st" "nonneg_waits (actions st)"
      "W (actions st ! Suc (Suc (rl_i st))) = 0" "Suc (Suc (rl_i st)) < length (actions st)"
    by (simp_all add: st_def in_sync_def threshold_def ideal_index_def nonneg_waits_def sentinel_def
        less_Suc_eq eval_nat_numeral)
  have r: "1 < ideal_index (actions st) (rl_t st)"
    using replay_zero_wait_lag [OF h] by (auto simp: st_def)
  have "listener_call st = Inr ([False, True], st\<lparr>rl_i := 1, rl_t := 5\<rparr>)"
    by (simp add: st_def listener_call_def decode_keys_def decode_loop_stop decode_loop_odd
        decode_loop_even eval_nat_numeral)
  then show ?thesis using h r unfolding Let_def st_def [symmetric] by simp
qed

theorem replay_negative_keycount_witness:
  "\<exists>st. NewReplayListener [\<lparr>W = 0, X = 0\<rparr>] (-1) 0 = Inr st \<and> keyCount st = -1
     \<and> (listener_call st = Inl MakeSliceLen \<or> listener_call st = Inl IndexOutOfRange)"
proof -
  have h: "[\<lparr>W = 0, X = 0 :: real\<rparr>] \<noteq> []" "(-1::int) < 0" by simp_all
  note replay_negative_keycount [OF h, of 0]
  then show ?thesis by blast
qed

end
