(* ===== verification/Meter.thy ===== *)
theory Meter
  imports Clock
begin

text \<open>
  The timing meter of \<open>src/drawer.go\<close> (\<open>MeterDrawer\<close>, \<open>MeterMark\<close>): its
  state, \<open>NewMeterDrawer\<close>, \<open>AddMark\<close>, \<open>Update\<close> (a cursor loop that counts
  expired marks and decrements the others, then drops a prefix), \<open>MarkAge\<close> and the
  colour and fade computation of \<open>Draw\<close>.  Sprites and colour matrices are not
  modelled; \<open>Draw\<close> yields the list of what it would place.  The specification of
  \<open>Update\<close> is \<open>tick_marks\<close> (drop expired marks, decrement the rest) under the
  sortedness invariant \<open>meter_inv\<close>; \<open>meter_run\<close> drives the meter by a sequence of
  events.
\<close>

subsection \<open>Timing meter\<close>

record meter_mark =
  Countdown :: int
  Offset :: int
  ColorType :: int

record meter_drawer =
  MaxCountdown :: int
  Marks :: "meter_mark list"

definition NewMeterDrawer :: "int \<Rightarrow> meter_drawer" where
  "NewMeterDrawer MaxTPS = \<lparr>MaxCountdown = TimeToTick MaxTPS 4000, Marks = []\<rparr>"

definition AddMark :: "meter_drawer \<Rightarrow> int \<Rightarrow> int \<Rightarrow> meter_drawer" where
  "AddMark d offset colorType =
     d\<lparr>Marks := Marks d @ [\<lparr>Countdown = MaxCountdown d, Offset = offset, ColorType = colorType\<rparr>]\<rparr>"

text \<open>
  The loop of \<open>Update\<close> (lines 218--225): marks at zero are counted in \<open>cursor\<close>,
  the others are decremented in place.
\<close>

fun update_marks :: "meter_mark list \<Rightarrow> nat \<times> meter_mark list" where
  "update_marks [] = (0, [])"
| "update_marks (m # ms) =
     (let (cursor, ms') = update_marks ms
      in if Countdown m = 0 then (Suc cursor, m # ms')
         else (cursor, m\<lparr>Countdown := Countdown m - 1\<rparr> # ms'))"

definition MeterDrawer_Update :: "meter_drawer \<Rightarrow> meter_drawer" where
  "MeterDrawer_Update d = (let (cursor, ms) = update_marks (Marks d) in d\<lparr>Marks := drop cursor ms\<rparr>)"

text \<open>\<open>MarkAge\<close>: \<open>None\<close> stands for the non-finite float of a zero \<open>MaxCountdown\<close>.\<close>

definition MarkAge :: "meter_drawer \<Rightarrow> meter_mark \<Rightarrow> real option" where
  "MarkAge d m =
     (if MaxCountdown d = 0 then None
      else Some (1 - of_int (Countdown m) / of_int (MaxCountdown d)))"

text \<open>\<open>MeterMarkColors\<close> (lines 140--144) as RGBA tuples.\<close>

text \<open>The judgment colours of lines 132--138 (\<open>color.NRGBA\<close>: red, green, blue, alpha),
  which the modes pass to \<open>NewMeterDrawer\<close>, and the mark colours of lines 140--144.\<close>

definition ColorKool :: "nat \<times> nat \<times> nat \<times> nat" where "ColorKool = (0, 170, 242, 255)"
definition ColorCool :: "nat \<times> nat \<times> nat \<times> nat" where "ColorCool = (85, 251, 255, 255)"
definition ColorGood :: "nat \<times> nat \<times> nat \<times> nat" where "ColorGood = (51, 255, 40, 255)"
definition ColorBad :: "nat \<times> nat \<times> nat \<times> nat" where "ColorBad = (244, 177, 0, 255)"
definition ColorMiss :: "nat \<times> nat \<times> nat \<times> nat" where "ColorMiss = (109, 120, 134, 255)"

definition MeterMarkColors :: "(nat \<times> nat \<times> nat \<times> nat) list" where
  "MeterMarkColors = [(255, 255, 255, 192), (213, 0, 242, 192), (252, 83, 6, 255)]"

text \<open>
  The mark loop of \<open>Draw\<close> (lines 231--241): each mark's colour, the alpha scale
  applied past age 0.8, and its horizontal translation in meter-width units.
\<close>

definition mark_alpha :: "real \<Rightarrow> real" where
  "mark_alpha age = (if 0.8 \<le> age then 1 - (age - 0.8) / 0.2 else 1)"

fun draw_marks :: "meter_drawer \<Rightarrow> meter_mark list \<Rightarrow>
    go_panic + ((nat \<times> nat \<times> nat \<times> nat) \<times> real option \<times> int) list" where
  "draw_marks d [] = Inr []"
| "draw_marks d (m # ms) =
     (if 0 \<le> ColorType m \<and> nat (ColorType m) < length MeterMarkColors
      then bind_go (draw_marks d ms) (\<lambda>ops.
             Inr ((MeterMarkColors ! nat (ColorType m), map_option mark_alpha (MarkAge d m),
                   - Offset m) # ops))
      else Inl IndexOutOfRange)"

definition MeterDrawer_Draw :: "meter_drawer \<Rightarrow> go_panic + ((nat \<times> nat \<times> nat \<times> nat) \<times> real option \<times> int) list" where
  "MeterDrawer_Draw d = draw_marks d (Marks d)"

definition meter_inv :: "meter_drawer \<Rightarrow> bool" where
  "meter_inv d \<longleftrightarrow> 0 \<le> MaxCountdown d \<and> sorted (map Countdown (Marks d))
     \<and> (\<forall>m \<in> set (Marks d). 0 \<le> Countdown m \<and> Countdown m \<le> MaxCountdown d)"

text \<open>The specification of one tick: evict the marks at zero, decrement the others.\<close>

definition tick_marks :: "meter_mark list \<Rightarrow> meter_mark list" where
  "tick_marks ms = map (\<lambda>m. m\<lparr>Countdown := Countdown m - 1\<rparr>) (filter (\<lambda>m. Countdown m \<noteq> 0) ms)"

text \<open>
  Marks are added by the judgment (\<open>AddMark\<close>) and aged once per tick
  (\<open>Update\<close>), in any interleaving: a run is a list of such events.
\<close>

datatype meter_event = MarkAdded int int | MeterTick

fun meter_step :: "meter_drawer \<Rightarrow> meter_event \<Rightarrow> meter_drawer" where
  "meter_step d (MarkAdded offset colorType) = AddMark d offset colorType"
| "meter_step d MeterTick = MeterDrawer_Update d"

definition meter_run :: "meter_drawer \<Rightarrow> meter_event list \<Rightarrow> meter_drawer" where
  "meter_run d evs = fold (\<lambda>e d. meter_step d e) evs d"

text \<open>The meter image built by \<open>NewMeterDrawer\<close> (lines 167--189): a dark bar as wide
  as the largest (miss) judgment window, and on it one coloured range per judgment,
  drawn from the widest to the narrowest.  \<open>MeterWidth\<close> and \<open>MeterHeight\<close> (pixels per
  millisecond and bar height, defined outside \<open>src/\<close>) are parameters; a range is the
  rectangle \<open>(x1, y1, x2, y2)\<close> with its colour.\<close>

fun meter_ranges ::
  "real \<Rightarrow> int \<Rightarrow> int \<Rightarrow> int \<Rightarrow> int list \<Rightarrow> 'c list \<Rightarrow> nat list
   \<Rightarrow> go_panic + ((int \<times> int \<times> int \<times> int) \<times> 'c) list" where
  "meter_ranges MeterWidth miss y1 y2 ws colors [] = Inr []"
| "meter_ranges MeterWidth miss y1 y2 ws colors (k # ks) =
     (if k < length colors then
        (let w = 1 + 2 * \<lceil>MeterWidth * of_int (ws ! k)\<rceil>;
             x1 = \<lceil>MeterWidth * of_int (miss - ws ! k)\<rceil>
         in bind_go (meter_ranges MeterWidth miss y1 y2 ws colors ks)
              (\<lambda>rs. Inr (((x1, y1, x1 + w, y2), colors ! k) # rs)))
      else Inl IndexOutOfRange)"

definition meter_image ::
  "real \<Rightarrow> real \<Rightarrow> int list \<Rightarrow> 'c list
   \<Rightarrow> go_panic + (int \<times> int) \<times> ((int \<times> int \<times> int \<times> int) \<times> 'c) list" where
  "meter_image MeterWidth MeterHeight ws colors =
     (if ws = [] then Inl IndexOutOfRange
      else let miss = last ws;
               w = 1 + 2 * \<lceil>MeterWidth * of_int miss\<rceil>;
               h = MeterHeight;
               y1 = \<lceil>h * 0.375\<rceil>; y2 = \<lceil>h * 0.625\<rceil>
           in bind_go (meter_ranges MeterWidth miss y1 y2 ws colors (rev [0..<length ws]))
                (\<lambda>rs. Inr ((w, go_trunc h), rs)))"

subsection \<open>Properties\<close>

lemma update_marks_eq:
  "update_marks ms = (length (filter (\<lambda>m. Countdown m = 0) ms),
     map (\<lambda>m. if Countdown m = 0 then m else m\<lparr>Countdown := Countdown m - 1\<rparr>) ms)"
  by (induction ms) (auto simp: Let_def)

lemma sorted_zero_prefix:
  assumes "sorted (map Countdown ms)" and "\<forall>m \<in> set ms. 0 \<le> Countdown m"
  shows "filter (\<lambda>m. Countdown m = 0) ms = takeWhile (\<lambda>m. Countdown m = 0) ms
       \<and> filter (\<lambda>m. Countdown m \<noteq> 0) ms = dropWhile (\<lambda>m. Countdown m = 0) ms"
  using assms
proof (induction ms)
  case (Cons m ms)
  show ?case
  proof (cases "Countdown m = 0")
    case False
    with Cons.prems have pos: "0 < Countdown m" by simp
    with Cons.prems(1) have "\<forall>x \<in> set ms. Countdown x \<noteq> 0" by fastforce
    with False show ?thesis by (simp add: filter_empty_conv)
  qed (use Cons in simp)
qed simp

lemma update_marks_tick:
  assumes "sorted (map Countdown ms)" and "\<forall>m \<in> set ms. 0 \<le> Countdown m"
  shows "(case update_marks ms of (cursor, ms') \<Rightarrow> drop cursor ms') = tick_marks ms"
proof -
  let ?z = "\<lambda>m. Countdown m = 0"
  let ?f = "\<lambda>m. if Countdown m = 0 then m else m\<lparr>Countdown := Countdown m - 1\<rparr>"
  note p = sorted_zero_prefix [OF assms]
  have "drop (length (filter ?z ms)) (map ?f ms) = map ?f (dropWhile ?z ms)"
    using p by (metis (no_types, lifting) drop_map append_eq_conv_conj takeWhile_dropWhile_id length_map)
  also have "\<dots> = map (\<lambda>m. m\<lparr>Countdown := Countdown m - 1\<rparr>) (dropWhile ?z ms)"
  proof (rule map_cong [OF refl])
    fix m assume "m \<in> set (dropWhile ?z ms)"
    then have "m \<in> set (filter (\<lambda>m. Countdown m \<noteq> 0) ms)" using p by simp
    then have "Countdown m \<noteq> 0" by simp
    then show "?f m = m\<lparr>Countdown := Countdown m - 1\<rparr>" by simp
  qed
  finally show ?thesis using p by (simp add: update_marks_eq tick_marks_def)
qed

lemma AddMark_inv: "meter_inv d \<Longrightarrow> meter_inv (AddMark d offset colorType)"
  by (auto simp: meter_inv_def AddMark_def sorted_append)

lemma MaxCountdown_Update [simp]: "MaxCountdown (MeterDrawer_Update d) = MaxCountdown d"
  by (simp add: MeterDrawer_Update_def split: prod.splits)

lemma MeterDrawer_Update_marks:
  "meter_inv d \<Longrightarrow> Marks (MeterDrawer_Update d) = tick_marks (Marks d)"
  using update_marks_tick [of "Marks d"]
  by (auto simp: meter_inv_def MeterDrawer_Update_def split: prod.splits)

lemma MeterDrawer_Update_inv: "meter_inv d \<Longrightarrow> meter_inv (MeterDrawer_Update d)"
proof -
  assume inv: "meter_inv d"
  have srt: "sorted (map Countdown (filter (\<lambda>m. Countdown m \<noteq> 0) (Marks d)))"
    using inv by (simp add: meter_inv_def sorted_filter)
  have "sorted (map (\<lambda>m. Countdown m - 1) (filter (\<lambda>m. Countdown m \<noteq> 0) (Marks d)))"
    using srt unfolding sorted_map by (rule sorted_wrt_mono_rel [rotated]) simp
  then show ?thesis
    using inv by (auto simp: meter_inv_def MeterDrawer_Update_marks tick_marks_def o_def
                      dest: bspec)
qed

lemma NewMeterDrawer_inv: "0 \<le> MaxTPS \<Longrightarrow> meter_inv (NewMeterDrawer MaxTPS)"
  by (simp add: meter_inv_def NewMeterDrawer_def TimeToTick_def go_trunc_nonneg)

lemma meter_step_inv: "meter_inv d \<Longrightarrow> meter_inv (meter_step d e)"
  by (cases e) (simp_all add: AddMark_inv MeterDrawer_Update_inv)

lemma fold_meter_inv: "meter_inv d \<Longrightarrow> meter_inv (fold (\<lambda>e d. meter_step d e) evs d)"
  by (induction evs arbitrary: d) (simp_all add: meter_step_inv)

text \<open>C7. Every meter drawer built by NewMeterDrawer and driven by any sequence of AddMark and Update calls keeps its invariant: marks' countdowns lie in [0, MaxCountdown] and are sorted ascending, which is what the cursor-based eviction in Update relies on.\<close>

theorem meter_run_inv: "0 \<le> MaxTPS \<Longrightarrow> meter_inv (meter_run (NewMeterDrawer MaxTPS) evs)"
  unfolding meter_run_def by (intro fold_meter_inv NewMeterDrawer_inv)

text \<open>C4. On a drawer satisfying the invariant, the in-place cursor routine of MeterDrawer.Update (count the leading zero countdowns, decrement the rest, drop the prefix) equals the reference behaviour: drop expired marks and decrement every other countdown.\<close>

theorem MeterDrawer_Update_equiv:
  "meter_inv d \<Longrightarrow> Marks (MeterDrawer_Update d) = tick_marks (Marks d)"
  by (rule MeterDrawer_Update_marks)

lemma Update_single_pos:
  "Marks d = [m] \<Longrightarrow> Countdown m \<noteq> 0 \<Longrightarrow>
     Marks (MeterDrawer_Update d) = [m\<lparr>Countdown := Countdown m - 1\<rparr>]"
  by (simp add: MeterDrawer_Update_def)

lemma Update_single_zero:
  "Marks d = [m] \<Longrightarrow> Countdown m = 0 \<Longrightarrow> Marks (MeterDrawer_Update d) = []"
  by (simp add: MeterDrawer_Update_def)

lemma single_mark_ticks:
  "Marks d = [m] \<Longrightarrow> k \<le> nat (Countdown m) \<Longrightarrow>
     Marks ((MeterDrawer_Update ^^ k) d) = [m\<lparr>Countdown := Countdown m - int k\<rparr>]"
proof (induction k)
  case (Suc k)
  then have "Marks ((MeterDrawer_Update ^^ k) d) = [m\<lparr>Countdown := Countdown m - int k\<rparr>]" by simp
  moreover have "Countdown m - int k \<noteq> 0" using Suc.prems(2) by simp
  ultimately show ?case by (simp add: Update_single_pos algebra_simps)
qed simp

text \<open>C18. A mark added to an empty meter is visible with countdown MaxCountdown - k after k ticks for every k up to MaxCountdown, and is removed only at tick MaxCountdown + 1: a mark lives MaxCountdown + 1 ticks, not the MaxCountdown the constructor's comment states.\<close>

theorem mark_lifetime:
  assumes empty: "Marks d = []" and nonneg: "0 \<le> MaxCountdown d"
  shows "(\<forall>k \<le> nat (MaxCountdown d). Marks ((MeterDrawer_Update ^^ k) (AddMark d offset colorType))
            = [\<lparr>Countdown = MaxCountdown d - int k, Offset = offset, ColorType = colorType\<rparr>])
       \<and> Marks ((MeterDrawer_Update ^^ Suc (nat (MaxCountdown d))) (AddMark d offset colorType)) = []"
proof -
  let ?m = "\<lparr>Countdown = MaxCountdown d, Offset = offset, ColorType = colorType\<rparr>"
  have one: "Marks (AddMark d offset colorType) = [?m]" using empty by (simp add: AddMark_def)
  have upto: "\<forall>k \<le> nat (MaxCountdown d). Marks ((MeterDrawer_Update ^^ k) (AddMark d offset colorType))
            = [\<lparr>Countdown = MaxCountdown d - int k, Offset = offset, ColorType = colorType\<rparr>]"
    using single_mark_ticks [OF one] by simp
  then have "Marks ((MeterDrawer_Update ^^ nat (MaxCountdown d)) (AddMark d offset colorType))
      = [\<lparr>Countdown = 0, Offset = offset, ColorType = colorType\<rparr>]"
    using nonneg by simp
  then have "Marks ((MeterDrawer_Update ^^ Suc (nat (MaxCountdown d))) (AddMark d offset colorType)) = []"
    by (simp add: Update_single_zero)
  with upto show ?thesis by blast
qed

text \<open>For a drawer with positive MaxCountdown and the invariant, every mark has an age in [0,1] and the derived alpha is in [0,1].\<close>

theorem MarkAge_bounds:
  assumes inv: "meter_inv d" and pos: "0 < MaxCountdown d" and m: "m \<in> set (Marks d)"
  shows "\<exists>a. MarkAge d m = Some a \<and> 0 \<le> a \<and> a \<le> 1 \<and> 0 \<le> mark_alpha a \<and> mark_alpha a \<le> 1"
proof -
  have c: "0 \<le> Countdown m" "Countdown m \<le> MaxCountdown d"
    using inv m unfolding meter_inv_def by auto
  define a where "a = 1 - of_int (Countdown m) / (of_int (MaxCountdown d) :: real)"
  have "of_int (Countdown m) / (of_int (MaxCountdown d) :: real) \<le> 1"
    using c pos by simp
  moreover have "0 \<le> of_int (Countdown m) / (of_int (MaxCountdown d) :: real)"
    using c pos by simp
  ultimately have a: "0 \<le> a" "a \<le> 1" by (simp_all add: a_def)
  then have "0 \<le> mark_alpha a \<and> mark_alpha a \<le> 1" by (simp add: mark_alpha_def)
  with a pos show ?thesis by (simp add: MarkAge_def a_def)
qed

lemma draw_marks_panics_iff:
  "(\<exists>e. draw_marks d ms = Inl e) \<longleftrightarrow> (\<exists>m \<in> set ms. ColorType m < 0 \<or> 2 < ColorType m)"
proof (induction ms)
  case (Cons m ms)
  show ?case
  proof (cases "0 \<le> ColorType m \<and> nat (ColorType m) < length MeterMarkColors")
    case True
    then have "\<not> (ColorType m < 0 \<or> 2 < ColorType m)" by (simp add: MeterMarkColors_def) linarith
    moreover have "(\<exists>e. draw_marks d (m # ms) = Inl e) \<longleftrightarrow> (\<exists>e. draw_marks d ms = Inl e)"
      using True by (cases "draw_marks d ms") simp_all
    ultimately show ?thesis using Cons.IH by auto
  next
    case False
    then have "ColorType m < 0 \<or> 2 < ColorType m" by (auto simp: MeterMarkColors_def)
    moreover have "draw_marks d (m # ms) = Inl IndexOutOfRange"
      unfolding draw_marks.simps using False by (rule if_not_P)
    ultimately show ?thesis by auto
  qed
qed simp

text \<open>C24. MeterDrawer.Draw panics (index out of range on MeterMarkColors) exactly when some mark has a ColorType outside 0..2.\<close>

theorem MeterDrawer_Draw_panics_iff:
  "(\<exists>e. MeterDrawer_Draw d = Inl e) \<longleftrightarrow> (\<exists>m \<in> set (Marks d). ColorType m < 0 \<or> 2 < ColorType m)"
  unfolding MeterDrawer_Draw_def by (rule draw_marks_panics_iff)

text \<open>A run showing that the cursor eviction is only correct on sorted marks: on an unsorted list Update evicts the live mark and keeps the expired one.\<close>

lemma unsorted_marks_wrong_eviction:
  "let d = \<lparr>MaxCountdown = 5, Marks = [\<lparr>Countdown = 1, Offset = 7, ColorType = 0\<rparr>,
                                      \<lparr>Countdown = 0, Offset = 9, ColorType = 1\<rparr>]\<rparr>
   in Marks (MeterDrawer_Update d) = [\<lparr>Countdown = 0, Offset = 9, ColorType = 1\<rparr>]
    \<and> tick_marks (Marks d) = [\<lparr>Countdown = 0, Offset = 7, ColorType = 0\<rparr>]"
  by (simp add: MeterDrawer_Update_def tick_marks_def)

lemma meter_ranges_Inl:
  "(\<exists>e. meter_ranges MW miss y1 y2 ws colors ks = Inl e) \<longleftrightarrow> (\<exists>k \<in> set ks. length colors \<le> k)"
  by (induction ks) (auto simp: Let_def bind_go_def split: sum.splits)




text \<open>C33. NewMeterDrawer panics (index out of range) exactly when there is no judgment or fewer colours than judgments.\<close>

theorem meter_image_panics_iff:
  "(\<exists>e. meter_image MeterWidth MeterHeight ws colors = Inl e) \<longleftrightarrow> ws = [] \<or> length colors < length ws"
proof (cases "ws = []")
  case False
  have "(\<exists>k \<in> set (rev [0..<length ws]). length colors \<le> k) \<longleftrightarrow> length colors < length ws"
    using False by auto
  then show ?thesis using False meter_ranges_Inl [of MeterWidth "last ws" "\<lceil>MeterHeight * 0.375\<rceil>" "\<lceil>MeterHeight * 0.625\<rceil>"
      ws colors "rev [0..<length ws]"]
    by (auto simp: meter_image_def Let_def bind_go_def split: sum.splits)
qed (simp add: meter_image_def)


subsection \<open>Witnesses\<close>

theorem meter_run_inv_witness:
  "0 \<le> (1000::int) \<and> meter_inv (meter_run (NewMeterDrawer 1000)
     [MarkAdded 3 0, MeterTick, MarkAdded (-2) 1, MeterTick, MeterTick])"
  using meter_run_inv [of 1000 "[MarkAdded 3 0, MeterTick, MarkAdded (-2) 1, MeterTick, MeterTick]"]
  by simp

theorem MeterDrawer_Update_equiv_witness:
  "let d = \<lparr>MaxCountdown = 5, Marks = [\<lparr>Countdown = 0, Offset = 1, ColorType = 0\<rparr>,
                                      \<lparr>Countdown = 2, Offset = 3, ColorType = 1\<rparr>]\<rparr>
   in meter_inv d \<and> Marks (MeterDrawer_Update d) = tick_marks (Marks d)
    \<and> tick_marks (Marks d) = [\<lparr>Countdown = 1, Offset = 3, ColorType = 1\<rparr>]"
proof -
  define d where "d = \<lparr>MaxCountdown = 5, Marks = [\<lparr>Countdown = 0, Offset = 1, ColorType = 0\<rparr>,
                                      \<lparr>Countdown = (2::int), Offset = 3, ColorType = 1\<rparr>]\<rparr>"
  have inv: "meter_inv d" by (simp add: d_def meter_inv_def)
  note MeterDrawer_Update_equiv [OF inv]
  with inv show ?thesis by (simp add: d_def tick_marks_def)
qed

theorem mark_lifetime_witness:
  "Marks \<lparr>MaxCountdown = 4000, Marks = []\<rparr> = [] \<and> 0 \<le> MaxCountdown \<lparr>MaxCountdown = (4000::int), Marks = []\<rparr>
   \<and> Marks ((MeterDrawer_Update ^^ 3999) (AddMark \<lparr>MaxCountdown = 4000, Marks = []\<rparr> 5 1))
       = [\<lparr>Countdown = 1, Offset = 5, ColorType = 1\<rparr>]
   \<and> Marks ((MeterDrawer_Update ^^ 4000) (AddMark \<lparr>MaxCountdown = 4000, Marks = []\<rparr> 5 1))
       = [\<lparr>Countdown = 0, Offset = 5, ColorType = 1\<rparr>]
   \<and> Marks ((MeterDrawer_Update ^^ 4001) (AddMark \<lparr>MaxCountdown = 4000, Marks = []\<rparr> 5 1)) = []"
proof -
  note l = mark_lifetime [of "\<lparr>MaxCountdown = 4000, Marks = []\<rparr>" 5 1]
  have "(3999::nat) \<le> nat 4000" "(4000::nat) \<le> nat 4000" by simp_all
  with l show ?thesis by simp
qed

theorem MeterDrawer_Draw_panics_iff_witness:
  "\<exists>e. MeterDrawer_Draw \<lparr>MaxCountdown = 4000, Marks = [\<lparr>Countdown = 10, Offset = 0, ColorType = 3\<rparr>]\<rparr> = Inl e"
  using MeterDrawer_Draw_panics_iff [of "\<lparr>MaxCountdown = 4000, Marks = [\<lparr>Countdown = 10, Offset = 0, ColorType = 3\<rparr>]\<rparr>"]
  by simp



theorem meter_image_panics_iff_witness:
  "\<exists>e. meter_image 4 20 [16, 37, 70, 100] [''kool'', ''cool'', ''good''] = Inl e"
  using meter_image_panics_iff [of 4 20 "[16, 37, 70, 100]" "[''kool'', ''cool'', ''good'']"] by simp


end
