(* ===== verification/PlaySession.thy ===== *)
theory PlaySession
  imports Timeline Replay Meter
begin

text \<open>One play session of the piano mode composed from its parts, in the order the
  specification fixes for a simulation step: the clock ticks (\<open>s.Tick++\<close>), the
  timeline cursor advances (\<open>UpdateTransPoint\<close>), the replay listener is called for
  the pressed keys (\<open>FetchPressed\<close>), the judged hits of the step add timing-meter marks
  (\<open>AddMark\<close>) and the meter ages (\<open>MeterDrawer.Update\<close>).  The mode's own \<open>Update\<close>
  and constructor are not under \<open>src/\<close>; they are modelled from the specification,
  whose section 7 makes a main BPM or key count that is not positive and an empty
  action list configuration errors, and unsorted timing points a data error, all
  reported by the constructor before the first tick.  Judgment is external: the hits of
  each step are an input.\<close>

type_synonym play_state = "scene_play \<times> replay_listener \<times> meter_drawer"

definition play_start ::
  "int \<Rightarrow> real \<Rightarrow> ms option \<Rightarrow> osr_action list \<Rightarrow> int \<Rightarrow> scene_play \<Rightarrow> go_panic + play_state" where
  "play_start MaxTPS GlobalVolume rf trimmed kc s0 =
     (if MainBPM s0 \<le> 0 \<or> kc \<le> 0 \<or> trimmed = [] then Inl ConfigurationError
      else if \<not> sorted (map tp_Time (chain s0)) then Inl DataError
      else bind_go (SetInitTransPoint GlobalVolume s0) (\<lambda>s1.
       (case SetTick MaxTPS rf s1 of (waitBefore, s2) \<Rightarrow>
          bind_go (NewReplayListener trimmed kc waitBefore) (\<lambda>rl.
            Inr (s2, rl, NewMeterDrawer MaxTPS)))))"

definition play_tick ::
  "int \<Rightarrow> real \<Rightarrow> (int \<times> int) list \<Rightarrow> play_state \<Rightarrow> go_panic + bool list \<times> play_state" where
  "play_tick MaxTPS GlobalVolume hits st =
     (case st of (s, rl, md) \<Rightarrow>
        bind_go (UpdateTransPoint MaxTPS GlobalVolume (clock_tick s)) (\<lambda>s'.
          bind_go (listener_call rl) (\<lambda>(p, rl').
            Inr (p, (s', rl', MeterDrawer_Update (fold (\<lambda>(off, c) d. AddMark d off c) hits md))))))"

fun play_ticks ::
  "int \<Rightarrow> real \<Rightarrow> (int \<times> int) list list \<Rightarrow> play_state \<Rightarrow> go_panic + bool list list \<times> play_state" where
  "play_ticks MaxTPS GlobalVolume [] st = Inr ([], st)"
| "play_ticks MaxTPS GlobalVolume (h # hs) st =
     bind_go (play_tick MaxTPS GlobalVolume h st) (\<lambda>(p, st').
       map_sum id (\<lambda>(ps, st''). (p # ps, st'')) (play_ticks MaxTPS GlobalVolume hs st'))"

definition play_inv :: "int \<Rightarrow> play_state \<Rightarrow> bool" where
  "play_inv MaxTPS st = (case st of (s, rl, md) \<Rightarrow>
     timeline_inv s \<and> in_sync rl \<and> positive_waits (actions rl) \<and> meter_inv md
     \<and> \<bar>Tick s + 1 - rl_t rl\<bar> \<le> 1)"

section \<open>Lemmas\<close>

lemma timeline_inv_clock_tick [simp]: "timeline_inv (clock_tick s) = timeline_inv s"
  by (simp add: timeline_inv_def clock_tick_def)

lemma Tick_funpow_clock_tick [simp]: "Tick ((clock_tick ^^ n) s) = Tick s + int n"
  by (induction n) (simp_all add: clock_tick_def)

lemma fold_AddMark_inv: "meter_inv md \<Longrightarrow> meter_inv (fold (\<lambda>(off, c) d. AddMark d off c) hits md)"
  by (induction hits arbitrary: md) (auto intro: AddMark_inv)

lemma UpdateTransPoint_inv:
  assumes "timeline_inv s"
  shows "\<exists>s'. UpdateTransPoint MaxTPS GlobalVolume s = Inr s' \<and> timeline_inv s' \<and> Tick s' = Tick s"
proof -
  obtain s' where ok: "UpdateTransPoint MaxTPS GlobalVolume s = Inr s'"
    using UpdateTransPoint_ok [OF assms] by blast
  note r = UpdateTransPoint_Inr [OF ok]
  then have "TransPoint s' < length (chain s')"
    using advance_lt assms unfolding timeline_inv_def by simp
  with r ok show ?thesis unfolding timeline_inv_def by simp
qed

lemma SetInitTransPoint_inv:
  assumes "\<exists>j < length (chain s). tp_Time (chain s ! j) \<noteq> tp_Time (chain s ! 0)"
  shows "\<exists>s'. SetInitTransPoint GlobalVolume s = Inr s' \<and> timeline_inv s' \<and> chain s' = chain s \<and> Tick s' = Tick s"
proof (cases "init_cursor (chain s) 0")
  case (Inl e)
  then show ?thesis using init_cursor_Inl [OF Inl] assms by auto
next
  case (Inr k)
  then show ?thesis using init_cursor_Inr [OF Inr]
    by (simp add: SetInitTransPoint_def timeline_inv_def)
qed

lemma play_tick_step:
  assumes inv: "play_inv 1000 (s, rl, md)"
    and before: "rl_t rl < threshold (actions rl) (length (actions rl) - 2)"
  shows "\<exists>st'. play_tick 1000 GlobalVolume hits (s, rl, md)
             = bind_go (decode_keys (keyCount rl) (X (actions rl ! ideal_index (actions rl) (rl_t rl))))
                 (\<lambda>p. Inr (p, st'))
           \<and> play_inv 1000 st' \<and> actions (fst (snd st')) = actions rl
           \<and> keyCount (fst (snd st')) = keyCount rl \<and> rl_t (fst (snd st')) = rl_t rl + 1"
proof -
  have i: "timeline_inv s" "in_sync rl" "positive_waits (actions rl)" "meter_inv md"
      "\<bar>Tick s + 1 - rl_t rl\<bar> \<le> 1"
    using inv by (simp_all add: play_inv_def)
  have "timeline_inv (clock_tick s)" using i(1) by simp
  then obtain s' where s': "UpdateTransPoint 1000 GlobalVolume (clock_tick s) = Inr s'"
      "timeline_inv s'" "Tick s' = Tick (clock_tick s)"
    using UpdateTransPoint_inv by blast
  then have t: "Tick s' = Tick s + 1" by (simp add: clock_tick_def)
  obtain rl' where rl': "listener_call rl = bind_go (decode_keys (keyCount rl)
        (X (actions rl ! ideal_index (actions rl) (rl_t rl)))) (\<lambda>p. Inr (p, rl'))"
      "in_sync rl'" "actions rl' = actions rl" "keyCount rl' = keyCount rl" "rl_t rl' = rl_t rl + 1"
    using listener_call_sync [OF i(3) i(2) before] by blast
  define md' where "md' = MeterDrawer_Update (fold (\<lambda>(off, c) d. AddMark d off c) hits md)"
  have m: "meter_inv md'"
    unfolding md'_def using fold_AddMark_inv [OF i(4)] by (rule MeterDrawer_Update_inv)
  have "\<bar>Tick s' + 1 - rl_t rl'\<bar> \<le> 1" using i(5) t rl'(5) by simp
  then have "play_inv 1000 (s', rl', md')" using s'(2) rl' i(3) m by (simp add: play_inv_def)
  moreover have "play_tick 1000 GlobalVolume hits (s, rl, md)
      = bind_go (decode_keys (keyCount rl) (X (actions rl ! ideal_index (actions rl) (rl_t rl))))
          (\<lambda>p. Inr (p, (s', rl', md')))"
    using s'(1) rl'(1) by (cases "decode_keys (keyCount rl) (X (actions rl ! ideal_index (actions rl) (rl_t rl)))")
      (simp_all add: play_tick_def md'_def)
  ultimately show ?thesis using rl' by fastforce
qed

lemma play_ticks_sync:
  assumes "play_inv 1000 st"
    and "rl_t (fst (snd st)) + int (length hs) \<le> threshold (actions (fst (snd st))) (length (actions (fst (snd st))) - 2)"
  shows "map_sum id fst (play_ticks 1000 GlobalVolume hs st)
           = ideal_run (actions (fst (snd st))) (keyCount (fst (snd st))) (rl_t (fst (snd st))) (length hs)
         \<and> (\<forall>ps st'. play_ticks 1000 GlobalVolume hs st = Inr (ps, st') \<longrightarrow> play_inv 1000 st'
               \<and> rl_t (fst (snd st')) = rl_t (fst (snd st)) + int (length hs))"
  using assms
proof (induction hs arbitrary: st)
  case Nil
  then show ?case by (cases st) simp
next
  case (Cons h hs)
  obtain s rl md where st: "st = (s, rl, md)" by (cases st) auto
  have before: "rl_t rl < threshold (actions rl) (length (actions rl) - 2)"
    using Cons.prems(2) st by simp
  obtain st' where step: "play_tick 1000 GlobalVolume h (s, rl, md)
             = bind_go (decode_keys (keyCount rl) (X (actions rl ! ideal_index (actions rl) (rl_t rl))))
                 (\<lambda>p. Inr (p, st'))"
      and inv': "play_inv 1000 st'" and same: "actions (fst (snd st')) = actions rl"
      "keyCount (fst (snd st')) = keyCount rl" "rl_t (fst (snd st')) = rl_t rl + 1"
    using play_tick_step [OF Cons.prems(1) [unfolded st] before] by blast
  have "rl_t (fst (snd st')) + int (length hs) \<le> threshold (actions (fst (snd st'))) (length (actions (fst (snd st'))) - 2)"
    using Cons.prems(2) st same by simp
  note ih = Cons.IH [OF inv' this]
  show ?case
  proof (cases "decode_keys (keyCount rl) (X (actions rl ! ideal_index (actions rl) (rl_t rl)))")
    case (Inl e)
    then show ?thesis using step st by simp
  next
    case (Inr p)
    have r: "map_sum id fst (play_ticks 1000 GlobalVolume hs st')
        = ideal_run (actions rl) (keyCount rl) (rl_t rl + 1) (length hs)"
      using ih [THEN conjunct1] by (simp only: same)
    show ?thesis
    proof (cases "play_ticks 1000 GlobalVolume hs st'")
      case (Inl e)
      then have "ideal_run (actions rl) (keyCount rl) (rl_t rl + 1) (length hs) = Inl e"
        using r by simp
      then show ?thesis using step st Inr Inl by simp
    next
      case (Inr q)
      obtain ps st'' where q: "q = (ps, st'')" by (cases q)
      have "ideal_run (actions rl) (keyCount rl) (rl_t rl + 1) (length hs) = Inr ps"
        using r Inr q by simp
      moreover have "play_inv 1000 st''" "rl_t (fst (snd st'')) = rl_t (fst (snd st')) + int (length hs)"
        using ih [THEN conjunct2] Inr q by blast+
      ultimately show ?thesis using step st \<open>decode_keys _ _ = Inr p\<close> Inr q same(3)
        by (cases st'') (simp add: algebra_simps)
    qed
  qed
qed

text \<open>The clock's float64 time stays within 2 ms of the replay time of the last call.\<close>

lemma play_inv_time:
  assumes inv: "play_inv 1000 (s, rl, md)" and r: "\<bar>rl_t rl\<bar> \<le> 2 ^ 30"
  shows "\<bar>Time64 1000 s - (rl_t rl - 1)\<bar> \<le> 2"
proof -
  have o: "rl_t rl - 2 \<le> Tick s" "Tick s \<le> rl_t rl"
    using inv by (simp_all add: play_inv_def abs_le_iff)
  have "\<bar>Tick s\<bar> \<le> 2 ^ 31" using o r by (simp add: abs_le_iff)
  from Time64_1000 [OF this] have "Tick s - 1 \<le> Time64 1000 s" "Time64 1000 s \<le> Tick s + 1"
    by (auto simp: sgn_if)
  with o show ?thesis by (simp add: abs_le_iff)
qed

lemma play_start_fields:
  "play_start MaxTPS GlobalVolume rf trimmed kc s0 = Inr (s, rl, md) \<Longrightarrow>
   MainBPM s = MainBPM s0 \<and> SpeedBase s = SpeedBase s0 \<and> chain s = chain s0"
  by (auto simp: play_start_def SetInitTransPoint_def SetTick_def Let_def bind_go_def
           split: sum.splits prod.splits if_splits)

lemma play_start_config_error:
  "MainBPM s0 \<le> 0 \<or> kc \<le> 0 \<or> trimmed = [] \<Longrightarrow>
   play_start MaxTPS GlobalVolume rf trimmed kc s0 = Inl ConfigurationError"
  by (simp add: play_start_def)

lemma play_start_inv:
  assumes chart: "\<exists>j < length (chain s0). tp_Time (chain s0 ! j) \<noteq> tp_Time (chain s0 ! 0)"
    and ne: "trimmed \<noteq> []" and pw: "positive_waits (trimmed @ [sentinel])"
    and start: "fst (SetTick 1000 rf s0) \<le> threshold (trimmed @ [sentinel]) 0"
    and cfg: "0 < MainBPM s0" "0 < kc" "sorted (map tp_Time (chain s0))"
    and range: "\<bar>fst (SetTick 1000 rf s0)\<bar> \<le> 2 ^ 31"
  shows "\<exists>st. play_start 1000 GlobalVolume rf trimmed kc s0 = Inr st \<and> play_inv 1000 st
           \<and> actions (fst (snd st)) = trimmed @ [sentinel] \<and> keyCount (fst (snd st)) = kc
           \<and> rl_t (fst (snd st)) = fst (SetTick 1000 rf s0)"
proof -
  obtain s1 where s1: "SetInitTransPoint GlobalVolume s0 = Inr s1" "timeline_inv s1"
    using SetInitTransPoint_inv [OF chart] by blast
  define wb where "wb = fst (SetTick 1000 rf s0)"
  have st: "SetTick 1000 rf s1 = (wb, s1\<lparr>Tick := TimeToTick64 1000 wb - 1\<rparr>)"
    by (simp add: wb_def SetTick_result Let_def)
  have off: "\<bar>TimeToTick64 1000 wb - wb\<bar> \<le> 1"
    using TimeToTick64_cases [of 1000 wb] range unfolding wb_def by (auto simp: sgn_if)
  obtain rl where rl: "NewReplayListener trimmed kc wb = Inr rl" "in_sync rl"
      "actions rl = trimmed @ [sentinel]" "keyCount rl = kc" "rl_t rl = wb"
    using NewReplayListener_sync [OF ne pw start [folded wb_def]] by blast
  have "play_inv 1000 (s1\<lparr>Tick := TimeToTick64 1000 wb - 1\<rparr>, rl, NewMeterDrawer 1000)"
    using s1(2) rl pw NewMeterDrawer_inv [of 1000] off
    by (simp add: play_inv_def timeline_inv_def)
  then show ?thesis using s1(1) st rl cfg ne by (simp add: play_start_def wb_def)
qed

end
