(* ===== verification/SceneChanger.thy ===== *)
theory SceneChanger
  imports Prelude
begin

text \<open>The scene changer of \<open>src/_scenechanger.go\<close> and the result scene's request of
  \<open>src/_result.go\<close>.  Scenes are a type parameter \<open>'s\<close>; a Go \<open>Scene\<close> interface value
  is \<open>'s option\<close>, \<open>None\<close> being \<open>nil\<close>.  The changer's state holds, besides its own
  fields, the game's current scene \<open>g.Scene\<close> (which \<open>Update\<close> writes) and the
  sequence of scenes whose \<open>Init\<close> was called.  Calling a method on a \<open>nil\<close> scene
  is the panic \<open>NilDereference\<close>.\<close>

section \<open>Definitions\<close>

record 's scene_changer =
  g_Scene :: "'s option"
  sc_Scene :: "'s option"
  NextScene :: "'s option"
  TransCountdown :: int
  init_log :: "'s list"

definition NewSceneChanger :: "'s option \<Rightarrow> 's scene_changer" where
  "NewSceneChanger gScene =
     \<lparr>g_Scene = gScene, sc_Scene = gScene, NextScene = None, TransCountdown = 0, init_log = []\<rparr>"

definition MaxTransCountDown :: "int \<Rightarrow> int" where
  "MaxTransCountDown MaxTPS = go_div (MaxTPS * 4) 5"

definition sc_done :: "'s scene_changer \<Rightarrow> bool" where
  "sc_done sc = (TransCountdown sc = 0)"

definition SceneChanger_Update :: "'s scene_changer \<Rightarrow> go_panic + 's scene_changer" where
  "SceneChanger_Update sc =
     (if sc_done sc then Inr sc
      else let c = TransCountdown sc - 1 in
        if 0 < c then Inr (sc\<lparr>TransCountdown := c\<rparr>)
        else (case NextScene sc of
                None \<Rightarrow> Inl NilDereference
              | Some n \<Rightarrow> Inr (sc\<lparr>TransCountdown := c, g_Scene := Some n,
                                 init_log := init_log sc @ [n], NextScene := None\<rparr>)))"

text \<open>The fade weight \<open>float64(TransCountdown) / float64(MaxTransCountDown())\<close>;
  \<open>None\<close> stands for the non-finite quotient of a division by zero.\<close>

definition fade_value :: "int \<Rightarrow> int \<Rightarrow> real option" where
  "fade_value c m = (if m = 0 then None else Some (of_int c / of_int m))"

text \<open>\<open>Draw\<close> renders the changer's own \<open>Scene\<close> field with brightness \<open>v\<close> and
  \<open>NextScene\<close> with \<open>1 - v\<close>; the result lists the scenes drawn with their weights.\<close>

definition SceneChanger_Draw :: "int \<Rightarrow> 's scene_changer \<Rightarrow> go_panic + ('s \<times> real option) list" where
  "SceneChanger_Draw MaxTPS sc =
     (if sc_done sc then Inr []
      else let v = fade_value (TransCountdown sc) (MaxTransCountDown MaxTPS) in
        (case sc_Scene sc of
           None \<Rightarrow> Inl NilDereference
         | Some from \<Rightarrow> (case NextScene sc of
              None \<Rightarrow> Inl NilDereference
            | Some to \<Rightarrow> Inr [(from, v), (to, map_option (\<lambda>x. 1 - x) v)])))"

definition changeScene :: "int \<Rightarrow> 's option \<Rightarrow> 's scene_changer \<Rightarrow> 's scene_changer" where
  "changeScene MaxTPS s sc = sc\<lparr>NextScene := s, TransCountdown := MaxTransCountDown MaxTPS\<rparr>"

text \<open>The result scene's state (\<open>src/_result.go\<close> lines 10--13): the rendered result
  image (a pointer, \<open>None\<close> for nil) and the buttons.  \<open>NewSceneResult\<close> renders
  nothing and leaves both empty; \<open>Draw\<close> draws the image, then every button.  Drawing a
  nil image dereferences it in \<open>ebiten.Image.DrawImage\<close>, a panic.\<close>

record ('i, 'b) scene_result =
  ScreenResult :: "'i option"
  Buttons :: "'b list"

text \<open>\<open>SceneResult.Update\<close> (lines 24--32): while Escape is held it asks the game for a
  change to a new select scene (\<open>g.ChangeScene\<close>, which hands the request to the
  changer); then it calls \<open>Update\<close> on every button.  The loop \<open>for _, b := range
  s.Buttons\<close> calls it on a copy of each element, so the slice of the result scene is
  left as it was; the third component is the list of updated copies, in order.  The
  button's \<open>Update\<close> (ebitenui, outside \<open>src/\<close>) is a parameter.\<close>

definition SceneResult_request :: "int \<Rightarrow> bool \<Rightarrow> 's \<Rightarrow> 's scene_changer \<Rightarrow> 's scene_changer" where
  "SceneResult_request MaxTPS escape select sc =
     (if escape then changeScene MaxTPS (Some select) sc else sc)"

definition SceneResult_Update ::
  "int \<Rightarrow> bool \<Rightarrow> 's \<Rightarrow> ('b \<Rightarrow> 'b) \<Rightarrow> ('i, 'b) scene_result \<Rightarrow> 's scene_changer
   \<Rightarrow> 's scene_changer \<times> ('i, 'b) scene_result \<times> 'b list" where
  "SceneResult_Update MaxTPS escape select ButtonUpdate s sc =
     (SceneResult_request MaxTPS escape select sc, s, map ButtonUpdate (Buttons s))"

definition NewSceneResult :: "'p \<Rightarrow> ('i, 'b) scene_result" where
  "NewSceneResult sp = \<lparr>ScreenResult = None, Buttons = []\<rparr>"

definition SceneResult_Draw :: "('i, 'b) scene_result \<Rightarrow> go_panic + 'i \<times> 'b list" where
  "SceneResult_Draw s = (case ScreenResult s of None \<Rightarrow> Inl NilDereference | Some img \<Rightarrow> Inr (img, Buttons s))"

text \<open>\<open>n\<close> successive calls of \<open>Update\<close>, stopping at the first panic.\<close>

fun SceneChanger_updates :: "nat \<Rightarrow> 's scene_changer \<Rightarrow> go_panic + 's scene_changer" where
  "SceneChanger_updates 0 sc = Inr sc"
| "SceneChanger_updates (Suc n) sc = bind_go (SceneChanger_Update sc) (SceneChanger_updates n)"

text \<open>The changer as a transition system: a request for a (non-nil) scene from any
  scene, an update of the result scene (which requests a select scene while Escape is
  held), or one \<open>Update\<close> that does not panic.\<close>

inductive sc_step :: "int \<Rightarrow> 's scene_changer \<Rightarrow> 's scene_changer \<Rightarrow> bool" for MaxTPS where
  request: "sc_step MaxTPS sc (changeScene MaxTPS (Some s) sc)"
| result: "sc_step MaxTPS sc (SceneResult_request MaxTPS escape select sc)"
| tick: "SceneChanger_Update sc = Inr sc' \<Longrightarrow> sc_step MaxTPS sc sc'"

inductive sc_reach :: "int \<Rightarrow> 's option \<Rightarrow> 's scene_changer \<Rightarrow> bool" for MaxTPS g0 where
  init: "sc_reach MaxTPS g0 (NewSceneChanger g0)"
| step: "sc_reach MaxTPS g0 sc \<Longrightarrow> sc_step MaxTPS sc sc' \<Longrightarrow> sc_reach MaxTPS g0 sc'"

definition sc_inv :: "int \<Rightarrow> 's scene_changer \<Rightarrow> bool" where
  "sc_inv MaxTPS sc =
     (0 \<le> TransCountdown sc \<and> TransCountdown sc \<le> MaxTransCountDown MaxTPS
      \<and> (TransCountdown sc \<noteq> 0 \<longrightarrow> NextScene sc \<noteq> None))"

section \<open>Lemmas\<close>

inductive_cases sc_step_cases: "sc_step MaxTPS sc sc'"

lemma MaxTransCountDown_nonneg: "0 \<le> MaxTPS \<Longrightarrow> 0 \<le> MaxTransCountDown MaxTPS"
  by (simp add: MaxTransCountDown_def)

lemma MaxTransCountDown_pos_iff: "0 \<le> MaxTPS \<Longrightarrow> 0 < MaxTransCountDown MaxTPS \<longleftrightarrow> 2 \<le> MaxTPS"
  by (simp add: MaxTransCountDown_def pos_imp_zdiv_pos_iff) linarith

lemma MaxTransCountDown_1000 [simp]: "MaxTransCountDown 1000 = 800"
  by (simp add: MaxTransCountDown_def)

lemma Update_done: "TransCountdown sc = 0 \<Longrightarrow> SceneChanger_Update sc = Inr sc"
  by (simp add: SceneChanger_Update_def sc_done_def)

lemma Update_count: "1 < TransCountdown sc \<Longrightarrow>
  SceneChanger_Update sc = Inr (sc\<lparr>TransCountdown := TransCountdown sc - 1\<rparr>)"
  by (simp add: SceneChanger_Update_def sc_done_def Let_def)

lemma Update_swap: "TransCountdown sc = 1 \<Longrightarrow> NextScene sc = Some n \<Longrightarrow>
  SceneChanger_Update sc = Inr (sc\<lparr>TransCountdown := 0, g_Scene := Some n,
                                   init_log := init_log sc @ [n], NextScene := None\<rparr>)"
  by (simp add: SceneChanger_Update_def sc_done_def)

lemma updates_done: "TransCountdown sc = 0 \<Longrightarrow> SceneChanger_updates n sc = Inr sc"
  by (induction n) (simp_all add: Update_done)

lemma updates_count:
  "int k < TransCountdown sc \<Longrightarrow>
   SceneChanger_updates k sc = Inr (sc\<lparr>TransCountdown := TransCountdown sc - int k\<rparr>)"
proof (induction k arbitrary: sc)
  case (Suc k)
  then have "SceneChanger_Update sc = Inr (sc\<lparr>TransCountdown := TransCountdown sc - 1\<rparr>)"
    by (intro Update_count) simp
  with Suc.IH [of "sc\<lparr>TransCountdown := TransCountdown sc - 1\<rparr>"] Suc.prems show ?case
    by (simp add: algebra_simps)
qed simp

lemma updates_add:
  "SceneChanger_updates (a + b) sc = bind_go (SceneChanger_updates a sc) (SceneChanger_updates b)"
proof (induction a arbitrary: sc)
  case (Suc a)
  then show ?case by (cases "SceneChanger_Update sc") simp_all
qed simp

lemma updates_complete:
  assumes c: "TransCountdown sc = int k + 1" and n: "NextScene sc = Some s"
  shows "SceneChanger_updates (Suc k) sc =
    Inr (sc\<lparr>TransCountdown := 0, g_Scene := Some s, init_log := init_log sc @ [s], NextScene := None\<rparr>)"
proof -
  have "SceneChanger_updates k sc = Inr (sc\<lparr>TransCountdown := 1\<rparr>)"
    using updates_count [of k sc] c by simp
  moreover have "SceneChanger_updates 1 (sc\<lparr>TransCountdown := 1\<rparr>) =
    Inr (sc\<lparr>TransCountdown := 0, g_Scene := Some s, init_log := init_log sc @ [s], NextScene := None\<rparr>)"
    using Update_swap [of "sc\<lparr>TransCountdown := 1\<rparr>" s] n by simp
  ultimately show ?thesis using updates_add [of k 1 sc] by simp
qed

lemma sc_step_inv: "0 \<le> MaxTPS \<Longrightarrow> sc_inv MaxTPS sc \<Longrightarrow> sc_step MaxTPS sc sc' \<Longrightarrow> sc_inv MaxTPS sc'"
  by (erule sc_step_cases)
     (auto simp: sc_inv_def changeScene_def SceneResult_request_def SceneChanger_Update_def sc_done_def Let_def
           MaxTransCountDown_nonneg split: if_splits option.splits)

lemma sc_step_sc_Scene: "sc_step MaxTPS sc sc' \<Longrightarrow> sc_Scene sc' = sc_Scene sc"
  by (erule sc_step_cases)
     (auto simp: changeScene_def SceneResult_request_def SceneChanger_Update_def Let_def split: if_splits option.splits)

lemma sc_reach_inv_aux: "sc_reach MaxTPS g0 sc \<Longrightarrow> 0 \<le> MaxTPS \<Longrightarrow> sc_inv MaxTPS sc \<and> sc_Scene sc = g0"
proof (induction rule: sc_reach.induct)
  case init
  then show ?case by (simp add: sc_inv_def NewSceneChanger_def MaxTransCountDown_nonneg)
next
  case (step sc sc')
  then show ?case using sc_step_inv sc_step_sc_Scene by metis
qed

lemma SceneResult_Update_result:
  "SceneResult_Update MaxTPS escape select ButtonUpdate s sc = (sc', s', bs) \<Longrightarrow>
   sc_step MaxTPS sc sc' \<and> s' = s \<and> bs = map ButtonUpdate (Buttons s)"
  by (auto simp: SceneResult_Update_def intro: sc_step.result)

lemma NewSceneResult_Draw: "SceneResult_Draw (NewSceneResult sp) = Inl NilDereference"
  by (simp add: SceneResult_Draw_def NewSceneResult_def)

section \<open>Properties\<close>


lemma sc_inv_Update:
  assumes "sc_inv MaxTPS sc"
  shows "\<exists>sc'. SceneChanger_Update sc = Inr sc'"
proof (cases "TransCountdown sc = 0 \<or> 1 < TransCountdown sc")
  case True
  then show ?thesis using Update_done Update_count by blast
next
  case False
  with assms have "TransCountdown sc = 1" "NextScene sc \<noteq> None" by (auto simp: sc_inv_def)
  then show ?thesis using Update_swap by fastforce
qed

text \<open>C5. Every state reachable from NewSceneChanger by scene requests, result-scene updates and non-panicking Updates (tick rate non-negative) keeps 0 <= TransCountdown <= MaxTransCountDown, has a next scene whenever a transition is running, and keeps the changer's own Scene field at the scene it was constructed with.\<close>

theorem sc_reach_inv:
  "0 \<le> MaxTPS \<Longrightarrow> sc_reach MaxTPS g0 sc \<Longrightarrow> sc_inv MaxTPS sc \<and> sc_Scene sc = g0"
  using sc_reach_inv_aux by blast

text \<open>C15. In every reachable state Update does not panic (the next scene it initialises is never nil) and its result is again reachable.\<close>

theorem SceneChanger_Update_safe:
  assumes "0 \<le> MaxTPS" "sc_reach MaxTPS g0 sc"
  shows "\<exists>sc'. SceneChanger_Update sc = Inr sc' \<and> sc_reach MaxTPS g0 sc'"
  using sc_inv_Update sc_reach_inv_aux [OF assms(2,1)] sc_reach.step [OF assms(2) sc_step.tick] by blast

text \<open>C23. While a transition runs in a reachable state whose initial scene is a, Draw renders a with weight v and the next scene with weight 1 - v, where 0 < v <= 1: the two fade weights are complementary.\<close>

theorem SceneChanger_Draw_weights:
  assumes tps: "0 \<le> MaxTPS" and r: "sc_reach MaxTPS (Some a) sc" and nd: "\<not> sc_done sc"
  shows "\<exists>b v. NextScene sc = Some b \<and> 0 < v \<and> v \<le> 1
           \<and> SceneChanger_Draw MaxTPS sc = Inr [(a, Some v), (b, Some (1 - v))]"
proof -
  have i: "sc_inv MaxTPS sc" and a: "sc_Scene sc = Some a" using sc_reach_inv_aux [OF r tps] by auto
  obtain b where b: "NextScene sc = Some b" using i nd by (auto simp: sc_inv_def sc_done_def)
  define v where "v = of_int (TransCountdown sc) / (of_int (MaxTransCountDown MaxTPS) :: real)"
  have c: "0 < TransCountdown sc" "TransCountdown sc \<le> MaxTransCountDown MaxTPS"
    using i nd by (auto simp: sc_inv_def sc_done_def)
  then have "0 < v" "v \<le> 1" by (simp_all add: v_def divide_le_eq_1)
  moreover have "SceneChanger_Draw MaxTPS sc = Inr [(a, Some v), (b, Some (1 - v))]"
    using nd a b c by (simp add: SceneChanger_Draw_def fade_value_def v_def)
  ultimately show ?thesis using b by blast
qed

text \<open>C6. After a scene request with a positive MaxTransCountDown, each of the first MaxTransCountDown - 1 updates only decrements the countdown, and update number MaxTransCountDown makes the requested scene the game's scene, calls its Init once and clears NextScene.\<close>

theorem transition_completes:
  assumes m: "0 < MaxTransCountDown MaxTPS"
  shows "let sc1 = changeScene MaxTPS (Some s) sc in
    (\<forall>k < nat (MaxTransCountDown MaxTPS).
       SceneChanger_updates k sc1 = Inr (sc1\<lparr>TransCountdown := MaxTransCountDown MaxTPS - int k\<rparr>))
    \<and> SceneChanger_updates (nat (MaxTransCountDown MaxTPS)) sc1
      = Inr (sc1\<lparr>TransCountdown := 0, g_Scene := Some s, init_log := init_log sc @ [s], NextScene := None\<rparr>)"
proof -
  define sc1 where "sc1 = changeScene MaxTPS (Some s) sc"
  define M where "M = MaxTransCountDown MaxTPS"
  have c: "TransCountdown sc1 = M" "NextScene sc1 = Some s" "init_log sc1 = init_log sc"
    by (simp_all add: sc1_def M_def changeScene_def)
  have run: "SceneChanger_updates k sc1 = Inr (sc1\<lparr>TransCountdown := M - int k\<rparr>)"
    if "k < nat M" for k
  proof -
    have "int k < TransCountdown sc1" using that c(1) by simp
    then show ?thesis using updates_count [of k sc1] c(1) by simp
  qed
  define k where "k = nat M - 1"
  have k: "nat M = Suc k" "TransCountdown sc1 = int k + 1" using m c(1) by (simp_all add: k_def M_def)
  have fin: "SceneChanger_updates (nat M) sc1 =
      Inr (sc1\<lparr>TransCountdown := 0, g_Scene := Some s, init_log := init_log sc @ [s], NextScene := None\<rparr>)"
    using updates_complete [OF k(2) c(2)] c(3) k(1) by simp
  show ?thesis using run fin by (simp add: sc1_def [symmetric] M_def [symmetric] Let_def)
qed

lemma changeScene_completes:
  assumes m: "0 < MaxTransCountDown MaxTPS"
  shows "SceneChanger_updates (nat (MaxTransCountDown MaxTPS)) (changeScene MaxTPS (Some s) sc)
    = Inr (sc\<lparr>NextScene := None, TransCountdown := 0, g_Scene := Some s, init_log := init_log sc @ [s]\<rparr>)"
proof -
  define k where "k = nat (MaxTransCountDown MaxTPS) - 1"
  have k: "nat (MaxTransCountDown MaxTPS) = Suc k"
    "TransCountdown (changeScene MaxTPS (Some s) sc) = int k + 1"
    using m by (simp_all add: k_def changeScene_def)
  show ?thesis
    using updates_complete [OF k(2), of s] k(1) by (simp add: changeScene_def)
qed

text \<open>C13. A second request issued k updates into a running transition replaces the next scene and restarts the countdown: MaxTransCountDown further updates end on the second scene, and the first requested scene is never initialised. The spec says such a request is ignored.\<close>

theorem second_request_restarts:
  assumes m: "int k < MaxTransCountDown MaxTPS"
  shows "bind_go (SceneChanger_updates k (changeScene MaxTPS (Some a) sc))
           (\<lambda>sc'. SceneChanger_updates (nat (MaxTransCountDown MaxTPS)) (changeScene MaxTPS (Some b) sc'))
         = Inr (sc\<lparr>NextScene := None, TransCountdown := 0, g_Scene := Some b, init_log := init_log sc @ [b]\<rparr>)"
proof -
  have "int k < TransCountdown (changeScene MaxTPS (Some a) sc)" using m by (simp add: changeScene_def)
  note u = updates_count [OF this]
  have p: "0 < MaxTransCountDown MaxTPS" using m by linarith
  have e: "changeScene MaxTPS (Some b) ((changeScene MaxTPS (Some a) sc)\<lparr>TransCountdown := x\<rparr>)
           = changeScene MaxTPS (Some b) sc" for x
    by (simp add: changeScene_def)
  show ?thesis using u changeScene_completes [OF p, of b sc] by (simp add: e)
qed

text \<open>A run in which Draw fades out the changer's own Scene field, which is set only by the constructor: after a completed transition from scene 0 to scene 1 at 1000 ticks per second, a new request to scene 2 is drawn as a crossfade from scene 0, although the game's scene is 1.\<close>

lemma stale_outgoing_scene:
  "\<exists>sc. SceneChanger_updates 800 (changeScene 1000 (Some (1::nat)) (NewSceneChanger (Some 0))) = Inr sc
     \<and> g_Scene sc = Some 1
     \<and> SceneChanger_Draw 1000 (changeScene 1000 (Some 2) sc) = Inr [(0, Some 1), (2, Some 0)]"
  using changeScene_completes [of 1000 1 "NewSceneChanger (Some (0::nat))"]
  by (simp add: NewSceneChanger_def SceneChanger_Draw_def changeScene_def sc_done_def fade_value_def)

text \<open>C28. With a tick rate of 0 or 1, MaxTransCountDown is 0, so a requested scene change is never carried out: Update leaves the state unchanged for any number of calls and the game keeps its scene.\<close>

theorem zero_countdown_request_lost:
  assumes "0 \<le> MaxTPS" "MaxTPS < 2"
  shows "SceneChanger_updates n (changeScene MaxTPS (Some s) sc) = Inr (changeScene MaxTPS (Some s) sc)
       \<and> g_Scene (changeScene MaxTPS (Some s) sc) = g_Scene sc"
proof -
  have "MaxTransCountDown MaxTPS = 0"
    using assms MaxTransCountDown_pos_iff MaxTransCountDown_nonneg by force
  then show ?thesis by (simp add: updates_done changeScene_def)
qed

subsection \<open>Witnesses\<close>

lemma reach_request_example: "sc_reach 1000 (Some (0::nat)) (changeScene 1000 (Some 1) (NewSceneChanger (Some (0::nat))))"
  by (rule sc_reach.step [OF sc_reach.init sc_step.request])

theorem sc_reach_inv_witness:
  "0 \<le> (1000::int) \<and> sc_reach 1000 (Some (0::nat)) (changeScene 1000 (Some 1) (NewSceneChanger (Some (0::nat))))
   \<and> sc_inv 1000 (changeScene 1000 (Some 1) (NewSceneChanger (Some (0::nat)))) \<and> sc_Scene (changeScene 1000 (Some 1) (NewSceneChanger (Some (0::nat)))) = Some 0"
  using sc_reach_inv [OF _ reach_request_example] reach_request_example by simp

theorem SceneChanger_Update_safe_witness:
  "0 \<le> (1000::int) \<and> sc_reach 1000 (Some (0::nat)) (changeScene 1000 (Some 1) (NewSceneChanger (Some (0::nat))))
   \<and> (\<exists>sc'. SceneChanger_Update (changeScene 1000 (Some 1) (NewSceneChanger (Some (0::nat)))) = Inr sc' \<and> sc_reach 1000 (Some 0) sc')"
  using SceneChanger_Update_safe [OF _ reach_request_example] reach_request_example by simp

theorem SceneChanger_Draw_weights_witness:
  "0 \<le> (1000::int) \<and> sc_reach 1000 (Some (0::nat)) (changeScene 1000 (Some 1) (NewSceneChanger (Some (0::nat)))) \<and> \<not> sc_done (changeScene 1000 (Some 1) (NewSceneChanger (Some (0::nat))))
   \<and> (\<exists>b v. NextScene (changeScene 1000 (Some 1) (NewSceneChanger (Some (0::nat)))) = Some b \<and> 0 < v \<and> v \<le> 1
         \<and> SceneChanger_Draw 1000 (changeScene 1000 (Some 1) (NewSceneChanger (Some (0::nat)))) = Inr [(0, Some v), (b, Some (1 - v))])"
proof -
  have nd: "\<not> sc_done (changeScene 1000 (Some 1) (NewSceneChanger (Some (0::nat))))" by (simp add: sc_done_def changeScene_def)
  show ?thesis using SceneChanger_Draw_weights [OF _ reach_request_example nd] reach_request_example nd by simp
qed

theorem transition_completes_witness:
  "0 < MaxTransCountDown 1000 \<and>
   (let sc1 = (changeScene 1000 (Some 1) (NewSceneChanger (Some (0::nat)))) in
    (\<forall>k < nat (MaxTransCountDown 1000).
       SceneChanger_updates k sc1 = Inr (sc1\<lparr>TransCountdown := MaxTransCountDown 1000 - int k\<rparr>))
    \<and> SceneChanger_updates (nat (MaxTransCountDown 1000)) sc1
      = Inr (sc1\<lparr>TransCountdown := 0, g_Scene := Some 1, init_log := [1], NextScene := None\<rparr>))"
  using transition_completes [of 1000 1 "NewSceneChanger (Some (0::nat))"]
  by (simp add: NewSceneChanger_def)

theorem second_request_restarts_witness:
  "int 100 < MaxTransCountDown 1000
   \<and> bind_go (SceneChanger_updates 100 (changeScene 1000 (Some 1) (NewSceneChanger (Some (0::nat)))))
        (\<lambda>sc'. SceneChanger_updates (nat (MaxTransCountDown 1000)) (changeScene 1000 (Some 2) sc'))
      = Inr \<lparr>g_Scene = Some 2, sc_Scene = Some 0, NextScene = None, TransCountdown = 0, init_log = [2]\<rparr>"
  using second_request_restarts [of 100 1000 1 "NewSceneChanger (Some (0::nat))" 2]
  by (simp add: NewSceneChanger_def)

theorem zero_countdown_request_lost_witness:
  "0 \<le> (1::int) \<and> (1::int) < 2
   \<and> SceneChanger_updates 5 (changeScene 1 (Some 1) (NewSceneChanger (Some (0::nat))))
       = Inr (changeScene 1 (Some 1) (NewSceneChanger (Some 0)))
   \<and> g_Scene (changeScene 1 (Some 1) (NewSceneChanger (Some (0::nat)))) = Some 0"
  using zero_countdown_request_lost [of 1 5 1 "NewSceneChanger (Some (0::nat))"]
  by (simp add: NewSceneChanger_def)

end
