(* ===== verification/PlayIO.thy ===== *)
theory PlayIO
  imports Timeline
begin

text \<open>The operations of \<open>ScenePlay\<close> (\<open>src/mode/play.go\<close>) around the timeline
  that talk to the outside: the music player and its volume (\<open>SetMusicPlayer\<close>), the
  background (\<open>SetBackground\<close>, and \<open>BackgroundDrawer\<close> of \<open>src/drawer.go\<close>), the
  window title (\<open>SetWindowTitle\<close>), the chart hash (\<open>MD5\<close>), the sound map
  (\<open>SetSoundMap\<close>) and the key actions (\<open>KeyAction\<close>).  The collaborators outside the
  repository's core (the audio decoder, the image loader, the file system, the hash
  function, the path helpers, the key-action classifier) are parameters: a function from
  its arguments to what the collaborator returns.  An audio handle is modelled by the
  volume it was last given; a Go error value is a string.  The lemmas show what
  \<open>SetMusicPlayer\<close> gives the player and when \<open>KeyAction\<close> panics.\<close>

record player =
  pl_Volume :: real

datatype 'i background = DefaultBackground | ImageBackground 'i

record 'i play_io = scene_play +
  MusicPlayer :: "player option"
  Background :: "'i background"

text \<open>\<open>SetMusicPlayer\<close> (lines 129--140): a virtual or empty path means no music;
  otherwise the player and the error of \<open>audioutil.NewPlayer\<close> are assigned to the
  scene (before the error is checked), the error is returned if there is one, and the
  new player is given the scene's volume.\<close>

definition SetMusicPlayer ::
  "(string \<Rightarrow> player option \<times> string option) \<Rightarrow> string \<Rightarrow> ('i, 'z) play_io_scheme
   \<Rightarrow> go_panic + string option \<times> ('i, 'z) play_io_scheme" where
  "SetMusicPlayer NewPlayer apath s =
     (if apath = ''virtual'' \<or> apath = '''' then Inr (None, s)
      else (case NewPlayer apath of (p, err) \<Rightarrow>
        let s1 = s\<lparr>MusicPlayer := p\<rparr> in
        (case err of
           Some e \<Rightarrow> Inr (Some e, s1)
         | None \<Rightarrow> (case p of
              None \<Rightarrow> Inl NilDereference
            | Some pl \<Rightarrow> Inr (None, s1\<lparr>MusicPlayer := Some (pl\<lparr>pl_Volume := Volume s\<rparr>)\<rparr>)))))"

text \<open>\<open>SetBackground\<close> (lines 95--107): the loaded image as a sprite scaled to the
  screen, or the default background when loading fails (the sprite geometry is not
  modelled).\<close>

definition SetBackground ::
  "(string \<Rightarrow> 'i option) \<Rightarrow> string \<Rightarrow> ('i, 'z) play_io_scheme \<Rightarrow> ('i, 'z) play_io_scheme" where
  "SetBackground NewImage path s =
     s\<lparr>Background := (case NewImage path of Some img \<Rightarrow> ImageBackground img | None \<Rightarrow> DefaultBackground)\<rparr>"

text \<open>\<open>SetWindowTitle\<close> (lines 91--94): the title handed to \<open>ebiten.SetWindowTitle\<close>.\<close>

record chart_names =
  MusicName :: string
  ChartName :: string

definition SetWindowTitle :: "'c chart_names_scheme \<Rightarrow> string" where
  "SetWindowTitle c = ''gosu - '' @ MusicName c @ '' - ['' @ ChartName c @ '']''"

text \<open>\<open>MD5\<close> (lines 68--74): the hash of the file's bytes; a read error panics
  with that error, which is \<open>Inl\<close> here.\<close>

definition MD5 :: "(string \<Rightarrow> string + 'b) \<Rightarrow> ('b \<Rightarrow> 'h) \<Rightarrow> string \<Rightarrow> string + 'h" where
  "MD5 ReadFile md5Sum path = (case ReadFile path of Inl err \<Rightarrow> Inl err | Inr b \<Rightarrow> Inr (md5Sum b))"

text \<open>The sound map and the key vectors of \<open>ScenePlay\<close> (lines 38, 42--43).
  \<open>SetSoundMap\<close> (lines 141--148) makes a sound map that reads the global volume
  through a pointer and registers, for each sample name, the name joined to the chart's
  directory; the sound map of \<open>audioutil\<close> and Go's \<open>filepath.Dir\<close> and
  \<open>filepath.Join\<close> are parameters.  \<open>KeyAction\<close> (lines 151--153) reads key \<open>k\<close>
  of the previous and the current key vector (an index out of range panics) and hands
  both to \<open>input.CurrentKeyAction\<close> (outside \<open>src/\<close>, a parameter).\<close>

record ('i, 'm) play_input = "'i play_io" +
  Sounds :: 'm
  LastPressed :: "bool list"
  Pressed :: "bool list"

definition SetSoundMap ::
  "('v \<Rightarrow> 'm) \<Rightarrow> ('m \<Rightarrow> string \<Rightarrow> 'm) \<Rightarrow> (string \<Rightarrow> string) \<Rightarrow> (string \<Rightarrow> string \<Rightarrow> string)
   \<Rightarrow> 'v \<Rightarrow> string \<Rightarrow> string list \<Rightarrow> ('i, 'm, 'z) play_input_scheme
   \<Rightarrow> string option \<times> ('i, 'm, 'z) play_input_scheme" where
  "SetSoundMap NewSoundMap Register Dir Join VolumeRef cpath names s =
     (None, s\<lparr>Sounds := fold (\<lambda>name m. Register m (Join (Dir cpath) name)) names (NewSoundMap VolumeRef)\<rparr>)"

definition KeyAction ::
  "(bool \<Rightarrow> bool \<Rightarrow> 'k) \<Rightarrow> ('i, 'm, 'z) play_input_scheme \<Rightarrow> int \<Rightarrow> go_panic + 'k" where
  "KeyAction CurrentKeyAction s k =
     (if 0 \<le> k \<and> nat k < length (LastPressed s) \<and> nat k < length (Pressed s)
      then Inr (CurrentKeyAction (LastPressed s ! nat k) (Pressed s ! nat k))
      else Inl IndexOutOfRange)"

text \<open>\<open>BackgroundDrawer\<close> (\<open>src/drawer.go\<close> lines 15--24): the sprite and a pointer to
  the brightness; \<open>Draw\<close> draws the sprite with its HSV value scaled by the brightness
  it reads through the pointer (a nil pointer panics).\<close>

record 'i background_drawer =
  Brightness :: "real option"
  Sprite :: "'i background"

definition BackgroundDrawer_Draw :: "'i background_drawer \<Rightarrow> go_panic + 'i background \<times> real" where
  "BackgroundDrawer_Draw d = (case Brightness d of None \<Rightarrow> Inl NilDereference | Some b \<Rightarrow> Inr (Sprite d, b))"

section \<open>Lemmas\<close>

lemma KeyAction_safe:
  "length (LastPressed s) = n \<Longrightarrow> length (Pressed s) = n \<Longrightarrow> 0 \<le> k \<Longrightarrow> k < int n \<Longrightarrow>
   KeyAction CurrentKeyAction s k = Inr (CurrentKeyAction (LastPressed s ! nat k) (Pressed s ! nat k))"
  by (simp add: KeyAction_def nat_less_iff)

lemma KeyAction_panics:
  "k < 0 \<or> length (LastPressed s) \<le> nat k \<or> length (Pressed s) \<le> nat k \<Longrightarrow>
   KeyAction CurrentKeyAction s k = Inl IndexOutOfRange"
  by (auto simp: KeyAction_def)

lemma UpdateTransPoint_more:
  "UpdateTransPoint MaxTPS GlobalVolume s = Inr s' \<Longrightarrow> MusicPlayer s' = MusicPlayer s \<and> Background s' = Background s"
  by (auto simp: UpdateTransPoint_def Let_def split: if_splits)

lemma SetMusicPlayer_player:
  assumes "SetMusicPlayer NewPlayer apath s = Inr (None, s1)" "apath \<noteq> ''virtual''" "apath \<noteq> ''''"
  shows "\<exists>pl. MusicPlayer s1 = Some pl \<and> pl_Volume pl = Volume s"
  using assms by (auto simp: SetMusicPlayer_def Let_def split: prod.splits option.splits)

end
