(* ===== verification/Digits.thy ===== *)
theory Digits
  imports Prelude
begin

text \<open>
  The number drawers of \<open>src/drawer.go\<close>: the combo counter (\<open>NumberDrawer.Update\<close>,
  the visibility test, the digit loop and the digit positions and bounce of its
  \<open>Draw\<close>) and the score drawer (\<open>NewScoreDrawer\<close>, \<open>Update\<close>, the digits and zero
  fill of \<open>Draw\<close>).  The countdown fields of \<open>draws.BaseDrawer\<close> (not under
  \<open>src/\<close>) are the fields \<open>nd_Countdown\<close> and \<open>nd_MaxCountdown\<close>.  The score
  smoother \<open>ctrl.Delayed\<close> (not under \<open>src/\<close>) is modelled from the specification:
  its exponential mode multiplies the residual by a fixed factor per update.
\<close>

subsection \<open>Combo counter and digits\<close>

text \<open>The sign sprites' indices (lines 26--30, \<open>iota\<close>).\<close>

definition SignDot :: int where "SignDot = 0"
definition SignComma :: int where "SignComma = 1"
definition SignPercent :: int where "SignPercent = 2"

record number_drawer =
  nd_Countdown :: int
  nd_MaxCountdown :: int
  Combo :: int

definition NumberDrawer_Update :: "number_drawer \<Rightarrow> int \<Rightarrow> number_drawer" where
  "NumberDrawer_Update d combo =
     (let d1 = (if 0 < nd_Countdown d then d\<lparr>nd_Countdown := nd_Countdown d - 1\<rparr> else d)
      in if Combo d1 \<noteq> combo then d1\<lparr>Combo := combo, nd_Countdown := nd_MaxCountdown d1\<rparr> else d1)"

text \<open>The two early returns of \<open>NumberDrawer.Draw\<close> (lines 54--59).\<close>

definition NumberDrawer_visible :: "'a number_drawer_scheme \<Rightarrow> bool" where
  "NumberDrawer_visible d \<longleftrightarrow> \<not> (nd_MaxCountdown d \<noteq> 0 \<and> nd_Countdown d = 0) \<and> Combo d \<noteq> 0"

text \<open>The little-endian digit loop shared by both \<open>Draw\<close>s (lines 60--63, 113--117).\<close>

function digits_le :: "int \<Rightarrow> int list" where
  "digits_le v = (if 0 < v then v mod 10 # digits_le (v div 10) else [])"
  by pat_completeness auto
termination
  by (relation "measure nat") auto

text \<open>
  Horizontal placement of the combo digits (lines 67--81): the first (least
  significant) digit at \<open>(n - 1) * w / 2\<close>, each next one \<open>w\<close> further left, and
  the vertical bounce by age (lines 74--79).
\<close>

definition combo_positions :: "real \<Rightarrow> int list \<Rightarrow> (int \<times> real) list" where
  "combo_positions w vs = map (\<lambda>(k, v). (v, of_nat (length vs - 1) * w / 2 - of_nat k * w)) (enumerate 0 vs)"

definition bounce_offset :: "real \<Rightarrow> real \<Rightarrow> real \<Rightarrow> real" where
  "bounce_offset bounce age h =
     (if age < 0.05 then bounce * age * h
      else if 0.05 \<le> age \<and> age < 0.1 then bounce * (0.1 - age) * h
      else 0)"

text \<open>
  The whole of \<open>NumberDrawer.Draw\<close> (lines 53--83) with its geometry: the drawer's
  digit width, gap and bounce, the height of each digit's sprite (\<open>SpriteH v\<close>) and the
  drawer's age \<open>d.Age()\<close> of \<open>draws.BaseDrawer\<close> (outside \<open>src/\<close>, a parameter).  The
  result lists, in drawing order, each digit with its horizontal and vertical offset.
\<close>

record number_drawer_sprites = number_drawer +
  DigitWidth :: real
  DigitGap :: real
  Bounce :: real

definition NumberDrawer_Draw ::
  "'a number_drawer_sprites_scheme \<Rightarrow> (int \<Rightarrow> real) \<Rightarrow> real \<Rightarrow> (int \<times> real \<times> real) list" where
  "NumberDrawer_Draw d SpriteH age =
     (if NumberDrawer_visible d
      then map (\<lambda>(v, x). (v, x, bounce_offset (Bounce d) age (SpriteH v)))
             (combo_positions (DigitWidth d + DigitGap d) (digits_le (Combo d)))
      else [])"


subsection \<open>Score smoother (from the specification)\<close>

record delayed =
  dl_Target :: real
  dl_Value :: real

definition Delayed_Update :: "real \<Rightarrow> delayed \<Rightarrow> real \<Rightarrow> delayed" where
  "Delayed_Update decay d target =
     \<lparr>dl_Target = target, dl_Value = target - decay * (target - dl_Value d)\<rparr>"

text \<open>\<open>ScoreDrawer\<close> (drawer.go): the zero fill and the smoothed score.
  \<open>NewScoreDrawer\<close> starts with \<open>ZeroFill = 1\<close> and a zero \<open>Delayed\<close>;
  \<open>Update\<close> forwards the new score to the smoother; \<open>Draw\<close> shows the digits of
  the smoothed value.\<close>

record score_drawer =
  sd_ZeroFill :: int
  Score :: delayed

definition NewScoreDrawer :: score_drawer where
  "NewScoreDrawer = \<lparr>sd_ZeroFill = 1, Score = \<lparr>dl_Target = 0, dl_Value = 0\<rparr>\<rparr>"

definition ScoreDrawer_Update :: "real \<Rightarrow> score_drawer \<Rightarrow> real \<Rightarrow> score_drawer" where
  "ScoreDrawer_Update decay d score = d\<lparr>Score := Delayed_Update decay (Score d) score\<rparr>"


text \<open>
  The whole of \<open>ScoreDrawer.Draw\<close> (lines 109--130): nothing while the base drawer's
  countdown has run out, otherwise the digits from the right, digit \<open>k\<close> moved to
  \<open>-k * w\<close> and then by \<open>-w/2 + W/2\<close> for its sprite width \<open>W\<close> (the sprite's origin is
  its right top corner).  The countdown fields of \<open>draws.BaseDrawer\<close> and the sprite
  widths are an extension of the state and a parameter.
\<close>

record score_drawer_sprites = score_drawer +
  sd_Countdown :: int
  sd_MaxCountdown :: int
  sd_DigitWidth :: real
  sd_DigitGap :: real



declare digits_le.simps [simp del]

subsection \<open>Properties\<close>

lemma digits_le_pos: "0 < v \<Longrightarrow> digits_le v = v mod 10 # digits_le (v div 10)"
  by (subst digits_le.simps) simp

lemma digits_le_nonpos: "\<not> 0 < v \<Longrightarrow> digits_le v = []"
  by (subst digits_le.simps) simp

lemma digits_le_value:
  "0 \<le> v \<Longrightarrow> digits_value 10 (digits_le v) = v \<and> (\<forall>x \<in> set (digits_le v). 0 \<le> x \<and> x < 10)"
proof (induction v rule: digits_le.induct)
  case (1 v)
  show ?case
  proof (cases "0 < v")
    case True
    then have "0 \<le> v div 10" by simp
    note ih = "1.IH" [OF True this]
    have v: "v = v mod 10 + 10 * (v div 10)" by simp
    have "digits_value 10 (digits_le v) = v mod 10 + 10 * (v div 10)"
      using ih by (simp add: digits_le_pos [OF True])
    moreover have "\<forall>x \<in> set (digits_le v). 0 \<le> x \<and> x < 10"
      using ih by (simp add: digits_le_pos [OF True])
    ultimately show ?thesis using v by simp
  next
    case False
    with "1.prems" show ?thesis by (simp add: digits_le_nonpos)
  qed
qed


text \<open>C29. The digit loop of NumberDrawer.Draw and ScoreDrawer.Draw (for v > 0; v /= 10) stops after exactly as many iterations as v has decimal digits: after L iterations 10^(L-1) <= v < 10^L.\<close>

theorem digit_loop_iterations:
  "0 < v \<Longrightarrow> 10 ^ (length (digits_le v) - 1) \<le> v \<and> v < 10 ^ length (digits_le v)"
proof (induction v rule: digits_le.induct)
  case (1 v)
  show ?case
  proof (cases "0 < v div 10")
    case False
    then have "v < 10" using "1.prems" by linarith
    then show ?thesis using "1.prems" False by (simp add: digits_le_pos digits_le_nonpos)
  next
    case True
    note ih = "1.IH" [OF "1.prems" True]
    let ?L = "length (digits_le (v div 10))"
    have "10 ^ ?L \<le> 10 * (v div 10)"
      using ih True by (cases ?L) simp_all
    also have "\<dots> \<le> v" by simp
    finally have lo: "10 ^ ?L \<le> v" .
    have "v < 10 * (v div 10 + 1)" by simp
    also have "\<dots> \<le> 10 * 10 ^ ?L" using ih by simp
    finally show ?thesis using lo "1.prems" by (simp add: digits_le_pos)
  qed
qed


lemma combo_positions_layout:
  assumes "0 \<le> v"
  shows "let ps = combo_positions w (digits_le v)
         in digits_value 10 (map fst ps) = v
          \<and> (\<forall>p \<in> set ps. 0 \<le> fst p \<and> fst p < 10)
          \<and> (\<forall>k < length ps. snd (ps ! k) + snd (ps ! (length ps - 1 - k)) = 0)"
proof -
  let ?vs = "digits_le v"
  have map_fst: "map fst (combo_positions w ?vs) = ?vs"
  proof (rule nth_equalityI)
    show "length (map fst (combo_positions w ?vs)) = length ?vs" by (simp add: combo_positions_def)
    fix k assume "k < length (map fst (combo_positions w ?vs))"
    then have "k < length ?vs" by (simp add: combo_positions_def)
    then show "map fst (combo_positions w ?vs) ! k = ?vs ! k"
      by (simp add: combo_positions_def nth_enumerate_eq)
  qed
  have pos: "\<And>k. k < length ?vs \<Longrightarrow> snd (combo_positions w ?vs ! k)
      = of_nat (length ?vs - 1) * w / 2 - of_nat k * w"
    by (simp add: combo_positions_def nth_enumerate_eq)
  have sym: "\<forall>k < length (combo_positions w ?vs).
      snd (combo_positions w ?vs ! k) + snd (combo_positions w ?vs ! (length (combo_positions w ?vs) - 1 - k)) = 0"
  proof (intro allI impI)
    fix k assume k: "k < length (combo_positions w ?vs)"
    then have k': "k < length ?vs" by (simp add: combo_positions_def)
    then have "length ?vs - 1 - k < length ?vs" by simp
    have a: "snd (combo_positions w ?vs ! k) = of_nat (length ?vs - 1) * w / 2 - of_nat k * w"
      using pos k' by blast
    have b: "snd (combo_positions w ?vs ! (length ?vs - 1 - k))
        = of_nat (length ?vs - 1) * w / 2 - of_nat (length ?vs - 1 - k) * w"
      using pos \<open>length ?vs - 1 - k < length ?vs\<close> by blast
    have c: "of_nat k + of_nat (length ?vs - 1 - k) = (of_nat (length ?vs - 1) :: real)"
      using k' by (simp add: of_nat_add [symmetric])
    have "snd (combo_positions w ?vs ! k) + snd (combo_positions w ?vs ! (length ?vs - 1 - k))
        = of_nat (length ?vs - 1) * w - (of_nat k + of_nat (length ?vs - 1 - k)) * w"
      unfolding a b by (simp add: algebra_simps)
    also have "\<dots> = 0" unfolding c by simp
    finally show "snd (combo_positions w ?vs ! k)
        + snd (combo_positions w ?vs ! (length (combo_positions w ?vs) - 1 - k)) = 0"
      by (simp add: combo_positions_def)
  qed
  have "\<forall>p \<in> set (combo_positions w ?vs). 0 \<le> fst p \<and> fst p < 10"
  proof
    fix p assume "p \<in> set (combo_positions w ?vs)"
    then have "fst p \<in> set (map fst (combo_positions w ?vs))" by simp
    then have "fst p \<in> set ?vs" unfolding map_fst .
    then show "0 \<le> fst p \<and> fst p < 10" using digits_le_value [OF assms] by blast
  qed
  with map_fst sym digits_le_value [OF assms] show ?thesis by (simp add: Let_def)
qed

lemma NumberDrawer_Update_same:
  "Combo d = combo \<Longrightarrow> 0 \<le> nd_Countdown d \<Longrightarrow>
     ((\<lambda>d. NumberDrawer_Update d combo) ^^ k) d = d\<lparr>nd_Countdown := max 0 (nd_Countdown d - int k)\<rparr>"
proof (induction k)
  case (Suc k)
  then have ih: "((\<lambda>d. NumberDrawer_Update d combo) ^^ k) d = d\<lparr>nd_Countdown := max 0 (nd_Countdown d - int k)\<rparr>"
    by simp
  have "((\<lambda>d. NumberDrawer_Update d combo) ^^ Suc k) d
      = NumberDrawer_Update (d\<lparr>nd_Countdown := max 0 (nd_Countdown d - int k)\<rparr>) combo"
    by (simp only: funpow.simps comp_apply ih)
  also have "\<dots> = d\<lparr>nd_Countdown := max 0 (nd_Countdown d - int (Suc k))\<rparr>"
    using Suc.prems by (simp add: NumberDrawer_Update_def Let_def max_def)
  finally show ?case .
qed simp

text \<open>C32. After a change of a non-zero combo, the combo number stays visible for exactly nd_MaxCountdown further updates with the same combo.\<close>

theorem combo_visible_window:
  assumes pos: "0 < nd_MaxCountdown d" and change: "Combo d \<noteq> c" and nz: "c \<noteq> 0"
  shows "NumberDrawer_visible (((\<lambda>d. NumberDrawer_Update d c) ^^ k) (NumberDrawer_Update d c))
         \<longleftrightarrow> int k < nd_MaxCountdown d"
proof -
  define d1 where "d1 = NumberDrawer_Update d c"
  have d1: "Combo d1 = c" "nd_Countdown d1 = nd_MaxCountdown d" "nd_MaxCountdown d1 = nd_MaxCountdown d"
    using change by (simp_all add: d1_def NumberDrawer_Update_def Let_def)
  have "((\<lambda>d. NumberDrawer_Update d c) ^^ k) d1 = d1\<lparr>nd_Countdown := max 0 (nd_Countdown d1 - int k)\<rparr>"
    using d1 pos by (intro NumberDrawer_Update_same) simp_all
  then show ?thesis
    using d1 pos nz by (auto simp: d1_def [symmetric] NumberDrawer_visible_def max_def)
qed

text \<open>The bounce offset of the combo digits lies between 0 and bounce * 0.05 * h for non-negative bounce, height and age.\<close>

lemma bounce_offset_bounds:
  assumes b: "0 \<le> bounce" and hh: "0 \<le> h" and a: "0 \<le> age"
  shows "0 \<le> bounce_offset bounce age h \<and> bounce_offset bounce age h \<le> bounce * 0.05 * h"
proof -
  have bh: "0 \<le> bounce * h" using b hh by simp
  consider (rise) "age < 0.05" | (fall) "0.05 \<le> age" "age < 0.1" | (rest) "0.1 \<le> age" by linarith
  then show ?thesis
  proof cases
    case rise
    have "bounce * h * age \<le> bounce * h * 0.05" using bh rise by (intro mult_left_mono) simp_all
    moreover have "0 \<le> bounce * h * age" using bh a by simp
    ultimately show ?thesis using rise by (simp add: bounce_offset_def algebra_simps)
  next
    case fall
    have "bounce * h * (0.1 - age) \<le> bounce * h * 0.05" using bh fall by (intro mult_left_mono) simp_all
    moreover have "0 \<le> bounce * h * (0.1 - age)" using bh fall by simp
    ultimately show ?thesis using fall by (simp add: bounce_offset_def algebra_simps)
  next
    case rest
    then show ?thesis using bh by (simp add: bounce_offset_def)
  qed
qed

lemma Delayed_approach:
  assumes dec: "0 < decay" "decay < 1" and below: "dl_Value d < target"
  shows "let v = (\<lambda>n. dl_Value (((\<lambda>d. Delayed_Update decay d target) ^^ n) d))
         in \<forall>n. target - v n = decay ^ n * (target - dl_Value d) \<and> v n < v (Suc n) \<and> v (Suc n) < target"
proof -
  define v where "v = (\<lambda>n. dl_Value (((\<lambda>d. Delayed_Update decay d target) ^^ n) d))"
  have res: "target - v n = decay ^ n * (target - dl_Value d)" for n
    by (induction n) (simp_all add: v_def Delayed_Update_def)
  have r0: "0 < target - dl_Value d" using below by simp
  have step: "v n < v (Suc n) \<and> v (Suc n) < target" for n
  proof -
    have a: "target - v (Suc n) = decay * (target - v n)" using res [of n] res [of "Suc n"] by simp
    have b: "0 < target - v n" using res [of n] r0 dec by simp
    have "decay * (target - v n) < target - v n" using b dec by simp
    moreover have "0 < decay * (target - v n)" using b dec by simp
    ultimately show ?thesis using a by linarith
  qed
  show ?thesis using res step by (simp add: v_def [symmetric] Let_def)
qed

lemma ScoreDrawer_Update_funpow:
  "Score (((\<lambda>d. ScoreDrawer_Update decay d target) ^^ n) d)
   = ((\<lambda>d. Delayed_Update decay d target) ^^ n) (Score d)"
  by (induction n) (simp_all add: ScoreDrawer_Update_def)

lemma fst_in_map_fst: "p \<in> set xs \<Longrightarrow> fst p \<in> set (map fst xs)"
  by simp



lemma NumberDrawer_Draw_visible:
  "NumberDrawer_visible d \<Longrightarrow> NumberDrawer_Draw d SpriteH age =
     map (\<lambda>(v, x). (v, x, bounce_offset (Bounce d) age (SpriteH v)))
       (combo_positions (DigitWidth d + DigitGap d) (digits_le (Combo d)))"
  by (simp add: NumberDrawer_Draw_def)

text \<open>C31. For a visible drawer with a non-negative combo, the digits NumberDrawer.Draw places read back to the combo, each is a decimal digit, and their horizontal offsets are symmetric about the centre.\<close>

theorem combo_digits_layout:
  assumes v: "0 \<le> Combo d" and vis: "NumberDrawer_visible d"
  shows "let ps = NumberDrawer_Draw d SpriteH age
         in digits_value 10 (map fst ps) = Combo d
          \<and> (\<forall>p \<in> set ps. 0 \<le> fst p \<and> fst p < 10)
          \<and> (\<forall>k < length ps. fst (snd (ps ! k)) + fst (snd (ps ! (length ps - 1 - k))) = 0)"
proof -
  let ?cs = "combo_positions (DigitWidth d + DigitGap d) (digits_le (Combo d))"
  let ?f = "\<lambda>(v, x). (v, x, bounce_offset (Bounce d) age (SpriteH v))"
  have ps: "NumberDrawer_Draw d SpriteH age = map ?f ?cs" by (rule NumberDrawer_Draw_visible [OF vis])
  have fst: "map fst (map ?f ?cs) = map fst ?cs" by (induction ?cs) auto
  have x: "fst (snd (map ?f ?cs ! k)) = snd (?cs ! k)" if "k < length ?cs" for k
    using that by (simp add: case_prod_beta)
  note l = combo_positions_layout [OF v, of "DigitWidth d + DigitGap d", unfolded Let_def]
  have A: "digits_value 10 (map fst (map ?f ?cs)) = Combo d" using l [THEN conjunct1] unfolding fst .
  have B: "\<forall>p \<in> set (map ?f ?cs). 0 \<le> fst p \<and> fst p < 10"
  proof
    fix p assume "p \<in> set (map ?f ?cs)"
    then have "fst p \<in> set (map fst (map ?f ?cs))" by (rule fst_in_map_fst)
    then have "fst p \<in> set (map fst ?cs)" unfolding fst .
    then show "0 \<le> fst p \<and> fst p < 10" using l by auto
  qed
  have C: "\<forall>k < length (map ?f ?cs). fst (snd (map ?f ?cs ! k)) + fst (snd (map ?f ?cs ! (length (map ?f ?cs) - 1 - k))) = 0"
  proof (intro allI impI)
    fix k assume "k < length (map ?f ?cs)"
    then have k: "k < length ?cs" by simp
    then have k2: "length ?cs - 1 - k < length ?cs" by simp
    have "fst (snd (map ?f ?cs ! k)) + fst (snd (map ?f ?cs ! (length (map ?f ?cs) - 1 - k)))
        = snd (?cs ! k) + snd (?cs ! (length ?cs - 1 - k))"
      using x [OF k] x [OF k2] by simp
    also have "\<dots> = 0" using l [THEN conjunct2, THEN conjunct2, rule_format, OF k] .
    finally show "fst (snd (map ?f ?cs ! k)) + fst (snd (map ?f ?cs ! (length (map ?f ?cs) - 1 - k))) = 0" .
  qed
  show ?thesis unfolding ps Let_def using A B C by blast
qed


subsection \<open>Witnesses\<close>


theorem combo_digits_layout_witness:
  "let d = \<lparr>nd_Countdown = 10, nd_MaxCountdown = 30, Combo = 907, DigitWidth = 2, DigitGap = 0, Bounce = 1\<rparr>
   in 0 \<le> Combo d \<and> NumberDrawer_visible d
    \<and> (let ps = NumberDrawer_Draw d (\<lambda>_. 20) 0.2
       in digits_value 10 (map fst ps) = Combo d
        \<and> (\<forall>p \<in> set ps. 0 \<le> fst p \<and> fst p < 10)
        \<and> (\<forall>k < length ps. fst (snd (ps ! k)) + fst (snd (ps ! (length ps - 1 - k))) = 0))"
proof -
  define d where "d = \<lparr>nd_Countdown = 10, nd_MaxCountdown = 30, Combo = 907, DigitWidth = 2 :: real,
    DigitGap = 0 :: real, Bounce = 1 :: real\<rparr>"
  have h: "0 \<le> Combo d" "NumberDrawer_visible d" by (simp_all add: d_def NumberDrawer_visible_def)
  show ?thesis using combo_digits_layout [OF h, of "\<lambda>_. 20" "0.2"] h unfolding Let_def d_def [symmetric] by simp
qed

theorem combo_visible_window_witness:
  "0 < nd_MaxCountdown \<lparr>nd_Countdown = 0, nd_MaxCountdown = 30, Combo = 4\<rparr>
   \<and> Combo \<lparr>nd_Countdown = 0, nd_MaxCountdown = (30::int), Combo = 4\<rparr> \<noteq> 5 \<and> (5::int) \<noteq> 0
   \<and> NumberDrawer_visible (((\<lambda>d. NumberDrawer_Update d 5) ^^ 10)
        (NumberDrawer_Update \<lparr>nd_Countdown = 0, nd_MaxCountdown = 30, Combo = 4\<rparr> 5))"
  using combo_visible_window [of "\<lparr>nd_Countdown = 0, nd_MaxCountdown = 30, Combo = 4\<rparr>" 5 10] by simp

theorem bounce_offset_bounds_witness:
  "0 \<le> (1 / 2 :: real) \<and> 0 \<le> (20::real) \<and> 0 \<le> (3 / 100 :: real)
   \<and> 0 \<le> bounce_offset (1 / 2) (3 / 100) 20 \<and> bounce_offset (1 / 2) (3 / 100) 20 \<le> 1 / 2 * 0.05 * 20"
  using bounce_offset_bounds [of "1 / 2" 20 "3 / 100"] by simp

theorem digit_loop_iterations_witness:
  "0 < (907::int) \<and> 10 ^ (length (digits_le 907) - 1) \<le> (907::int) \<and> 907 < (10::int) ^ length (digits_le 907)
   \<and> length (digits_le 907) = 3"
  using digit_loop_iterations [of 907] by (simp add: digits_le_pos digits_le_nonpos)

end
