(* ===== verification/Note.thy ===== *)
theory Note
  imports Prelude "HOL-Library.Word"
begin

text \<open>The note record of \<open>src/common/note.go\<close>: times in milliseconds after the rate
  has been applied (\<open>int64\<close>, here \<open>int\<close>), the second time of a long note, the sample's
  volume and file name, and the note type, a 16-bit signed integer (\<open>int16\<close>), kept at
  its width as a \<open>16 word\<close> read with \<open>sint\<close>.\<close>

type_synonym NoteType = "16 word"

record common_note =
  note_Type :: NoteType
  note_Time :: int
  Time2 :: int
  SampleVolume :: int
  SampleFilename :: string

end
