(* ===== verification/Spec2Isabelle.thy ===== *)
theory Spec2Isabelle
  imports PlaySession SceneChanger PlayIO Digits Note Float64
begin

text \<open>
  \<^bold>\<open>A verification library for the gosu play-session core.\<close>

  The program (repository x86chi/gosu, Go, files under \<open>src/\<close>) is the real-time core
  of a rhythm-game play scene.  A virtual tick clock (\<open>ScenePlay.Tick\<close>) drives a chain
  of timing points (BPM, speed, volume) resolved against the clock's time; a replay
  listener turns the recorded actions of a replay into one pressed-key vector per call;
  judged hits add marks to a timing meter that age out; number drawers show the combo
  and a smoothed score; a scene changer cross-fades from one scene to the next; the
  result scene requests a change on Escape.  One simulation step runs, in this order,
  the clock tick, the timeline update, the replay call, the meter marks and the meter
  update.  \<open>src/_scenechanger.go\<close> and \<open>src/_result.go\<close> start with an underscore, so
  the Go tool excludes them from builds; they are modelled as written.

  Conventions.  The clock conversions of \<open>play.go\<close> (lines 76--78), which turn ticks
  into the milliseconds every timed component reads, are modelled bit-exactly in IEEE
  binary64 (theory \<open>Float64\<close>); the timeline and the session read the clock through
  them.  Other float64 arithmetic (beat ratio, speed, volume, meter geometry, the score
  smoother, mark fading) is exact real arithmetic: those values are only drawn or
  scaled.  A non-finite float result is \<open>None\<close> where it can arise (division by a zero
  BPM or countdown).  Go's truncating conversion \<open>int(...)\<close> is \<open>go_trunc\<close> and its
  integer division is \<open>go_div\<close>.  Every panic the code can raise (index out of range,
  nil dereference, a negative \<open>make\<close> length) is a value of \<open>go_panic\<close> in the \<open>Inl\<close>
  side of a sum, with the specification's two construction errors of the mode
  constructor, and \<open>bind_go\<close> sequences the statements of a handler.  Collaborators
  outside \<open>src/\<close> (ebiten, audio, file system, the \<open>draws\<close>, \<open>ctrl\<close>, \<open>input\<close> and \<open>osr\<close>
  packages) are parameters, or, where the specification describes them, definitions
  taken from the specification.

  Theories, in import order:
  \<^item> \<open>Prelude\<close>: \<open>go_trunc\<close>, \<open>go_div\<close>, \<open>go_panic\<close>, \<open>bind_go\<close>, positional digit values,
    and the arithmetic lemmas the components share.
  \<^item> \<open>Clock\<close> (\<open>src/mode/play.go\<close> 22, 60--63): the wait constants, the record
    \<open>play_clock\<close> and \<open>clock_tick\<close> (\<open>s.Tick++\<close>).  \<open>TimeToTick\<close>, \<open>TickToTime\<close> and
    \<open>Time\<close> here are the specification's exact conversions (section 4.1), the reference
    for the code's; their lemmas (round trips, monotonicity) are facts of that
    reference, not of the program.
  \<^item> \<open>Float64\<close> (\<open>play.go\<close> 76--88): \<open>fl64\<close> rounds a real to the nearest binary64 value
    (53-bit significand, ties to even, subnormals), and \<open>TimeToTick64\<close>,
    \<open>TickToTime64\<close>, \<open>Time64\<close> and \<open>SetTick\<close> are the code's conversions, rounding after
    every operation as Go does.  Lemmas: the relative error \<open>2^-53\<close> of one rounding,
    exactness on integers below \<open>2^53\<close>, and Go's integer quotient, possibly one closer
    to zero, as the value of each conversion.  Claims: each conversion is the exact
    result or one unit closer to zero, the latter only when the exact quotient is an
    integer (witnesses: \<open>TimeToTick(1001) = 1000\<close> at 1000 ticks per second,
    \<open>TickToTime(1938) = 8074\<close> at 240); the time-tick-time round trip loses at most one
    tick's duration plus 1 ms, which the code reaches (4020 ms to 4014 ms at 200).
  \<^item> \<open>Timeline\<close> (\<open>play.go\<close> 29--35, 65--66, 109--126): the timing-point chain is an
    immutable list and the \<open>TransPoint\<close> pointer an index into it (\<open>Next = nil\<close> is the
    end of the list).  Operations: \<open>SetInitTransPoint\<close>, \<open>UpdateTransPoint\<close> (whose
    current time is \<open>Time64\<close>), \<open>BeatRatio\<close>, \<open>Speed\<close>.  The specification of the cursor is
    \<open>active_index\<close>, the last point whose time has passed; \<open>UpdateTransPoint\<close> refines it
    on sorted chains, is total from a valid cursor and idempotent.  Also: exactly when
    \<open>SetInitTransPoint\<close> panics, and exactly when \<open>UpdateTransPoint\<close> leaves the volume the
    specification asks for (a volume change is lost when the new scale equals the
    previous applied volume).
  \<^item> \<open>Replay\<close> (\<open>src/mode/piano/replay.go\<close>): the closure's captured \<open>i\<close>, \<open>t\<close>, \<open>next\<close>
    are the record \<open>replay_listener\<close>; \<open>listener_call\<close> is one call, with its bit loop
    \<open>decode_loop\<close>.  The specification is \<open>ideal_run\<close>: at each time, the action whose
    cumulative threshold was reached last.  With positive waits the listener refines it
    until the sentinel's threshold, where the code panics.  Also: the round trip of key
    decoding and the panic for mask overflow; with a zero wait the listener reports an
    action the ideal replay has passed, because it advances one action per call; a
    negative key count is accepted and makes every call panic.
  \<^item> \<open>Meter\<close> (\<open>src/drawer.go\<close> 140--246): \<open>MeterDrawer\<close> and \<open>MeterMark\<close>,
    \<open>NewMeterDrawer\<close> and the geometry of its image, \<open>AddMark\<close>, \<open>Update\<close>, \<open>MarkAge\<close>,
    \<open>Draw\<close>.  The cursor eviction of \<open>Update\<close> equals the reference \<open>tick_marks\<close> under
    the sortedness invariant, which every run keeps.  A mark lives MaxCountdown + 1
    updates.  Draw panics exactly on an unknown colour; the image's index panics and
    range geometry are characterised.  A lemma runs an unsorted list, where the
    eviction is wrong.
  \<^item> \<open>Digits\<close> (\<open>src/drawer.go\<close> 32--130): \<open>NumberDrawer.Update\<close> and \<open>Draw\<close>,
    \<open>NewScoreDrawer\<close>, \<open>ScoreDrawer.Update\<close> and \<open>Draw\<close>, and the score smoother
    \<open>ctrl.Delayed\<close> taken from the specification.  Claims: the drawn digits read back to
    the value, the number of iterations of the digit loop, the combo's visibility
    window.
  \<^item> \<open>PlaySession\<close>: the mode's constructor and \<open>Update\<close>, which are not under \<open>src/\<close>,
    modelled from the specification: the constructor reports its configuration and
    data errors (section 7), then composes \<open>SetInitTransPoint\<close>, \<open>SetTick\<close>,
    \<open>NewReplayListener\<close> and \<open>NewMeterDrawer\<close>; a step composes the operations in the
    specification's order.  \<open>play_inv\<close> combines the component invariants with the tick
    staying within one of the replay time.
  \<^item> \<open>SceneChanger\<close> (\<open>src/_scenechanger.go\<close>, \<open>src/_result.go\<close>): the changer's
    fields, the game's scene it writes and the \<open>Init\<close> calls, over an abstract scene
    type, as a record.  Operations: \<open>Update\<close>, \<open>changeScene\<close>, \<open>Draw\<close>, the result scene's
    \<open>Update\<close> (its scene request, \<open>SceneResult_request\<close>, and the buttons' updates,
    a parameter) and \<open>Draw\<close>.  The step relation \<open>sc_step\<close> has reachable states
    \<open>sc_reach\<close>; an invariant of them makes \<open>Update\<close> safe.  A transition completes
    after exactly \<open>MaxTransCountDown\<close> updates.  A second request restarts it.  A tick
    rate below 2 loses requests.  A lemma runs a second transition, which \<open>Draw\<close> fades
    from the scene of construction.
  \<^item> \<open>PlayIO\<close> (\<open>play.go\<close> 68--153, \<open>drawer.go\<close> 15--24): music player, background,
    window title, MD5, sound map, key actions.  The \<open>SetVolume\<close> call of
    \<open>UpdateTransPoint\<close> is commented out in the source, so no operation pushes the
    volume to the player.
  \<^item> \<open>Note\<close> (\<open>src/common/note.go\<close>): the note record, with \<open>NoteType\<close> as a 16-bit word.
  \<^item> This theory: the end-to-end refinement of a play session at 1000 ticks per second
    (the listener reproduces the ideal replay, the invariants hold, and the float64
    clock time stays within 2 ms of the replay time), and the fact that the clock
    keeps within 1 ms of the tick count, as the replay's time does, exactly at 1000
    ticks per second.

  Bounds and fuel.  The only fuel is \<open>float_exp\<close>'s, 2100 halvings or doublings to
  find a binary exponent: enough for every magnitude between \<open>2^-1074\<close> and
  \<open>2^1024\<close>, and \<open>float_exp_correct\<close> proves it finds the exponent in
  \<open>[2^-1000, 2^1000)\<close>, which holds every value the conversions reach.  The float
  theorems assume times and ticks within \<open>\<plusminus>2^31\<close> (24 days of milliseconds) and tick
  rates up to \<open>2^16\<close> (up to 1000 for the round trip), which keeps every product below
  \<open>2^47\<close>, where two roundings err by less than one unit of the result.  Every loop of
  the code is a \<open>function\<close> whose termination is proved by a measure: the cursor loops
  by the chain's remaining length, the bit and digit loops by the value.  Repetition
  (ticks, updates) is an explicit count (\<open>SceneChanger_updates n\<close>) or list
  (\<open>play_ticks\<close> over the hits of each tick).  The replay theorems bound the number of
  calls by the sentinel's threshold, because the code panics at that call.

  Not modelled: pixels, sprites, colour matrices and ebiten images (\<open>Draw\<close> methods
  yield what they would place), including ebiten's own panic on a meter image of zero
  height (\<open>int(MeterHeight) = 0\<close>); audio decoding and playback beyond the player's
  volume; the buttons' own \<open>Update\<close> (ebitenui); judgment and scoring, which are an
  input of the play step; float64 rounding outside the clock conversions; overflow to
  infinity, which the conversions' operands never approach.
\<close>

section \<open>Properties across components\<close>

text \<open>C1. End to end at 1000 ticks per second: a play session started from a valid
  configuration (positive main BPM and key count, non-empty replay, sorted timing points
  that do not all share one time, a replay with positive waits) by SetInitTransPoint,
  SetTick, NewReplayListener and NewMeterDrawer, then run for as many ticks as the
  replay covers (clock tick, UpdateTransPoint, replay call, AddMark of the step's hits,
  meter Update), reports exactly the ideal replay's key vectors (a panic only where
  decoding the ideal action panics); the state it reaches keeps the timeline cursor
  valid, the listener in sync with the ideal index, the meter invariant, the tick
  within one of the replay time, and the clock's float64 Time within 2 ms of the
  replay time of the last call.\<close>

theorem play_session_refines:
  assumes chart: "\<exists>j < length (chain s0). tp_Time (chain s0 ! j) \<noteq> tp_Time (chain s0 ! 0)"
    and ne: "trimmed \<noteq> []" and pw: "positive_waits (trimmed @ [sentinel])"
    and start: "fst (SetTick 1000 rf s0) \<le> threshold (trimmed @ [sentinel]) 0"
    and before: "fst (SetTick 1000 rf s0) + int (length hs) \<le> threshold (trimmed @ [sentinel]) (length trimmed - 1)"
    and cfg: "0 < MainBPM s0" "0 < kc" "sorted (map tp_Time (chain s0))"
    and range: "- (2 ^ 30) \<le> fst (SetTick 1000 rf s0)" "fst (SetTick 1000 rf s0) + int (length hs) \<le> 2 ^ 30"
  shows "map_sum id fst (bind_go (play_start 1000 GlobalVolume rf trimmed kc s0) (play_ticks 1000 GlobalVolume hs))
           = ideal_run (trimmed @ [sentinel]) kc (fst (SetTick 1000 rf s0)) (length hs)
         \<and> (\<forall>ps st. bind_go (play_start 1000 GlobalVolume rf trimmed kc s0) (play_ticks 1000 GlobalVolume hs)
                    = Inr (ps, st) \<longrightarrow> play_inv 1000 st
                      \<and> \<bar>Time64 1000 (fst st) - (rl_t (fst (snd st)) - 1)\<bar> \<le> 2)"
proof -
  have "\<bar>fst (SetTick 1000 rf s0)\<bar> \<le> 2 ^ 31" using range by simp
  then obtain st0 where st0: "play_start 1000 GlobalVolume rf trimmed kc s0 = Inr st0" "play_inv 1000 st0"
      "actions (fst (snd st0)) = trimmed @ [sentinel]" "keyCount (fst (snd st0)) = kc"
      "rl_t (fst (snd st0)) = fst (SetTick 1000 rf s0)"
    using play_start_inv [OF chart ne pw start cfg] by blast
  have "rl_t (fst (snd st0)) + int (length hs)
        \<le> threshold (actions (fst (snd st0))) (length (actions (fst (snd st0))) - 2)"
    using before st0(3,5) by simp
  note r = play_ticks_sync [OF st0(2) this, of GlobalVolume]
  have fin: "play_inv 1000 st \<and> \<bar>Time64 1000 (fst st) - (rl_t (fst (snd st)) - 1)\<bar> \<le> 2"
    if "play_ticks 1000 GlobalVolume hs st0 = Inr (ps, st)" for ps st
  proof -
    have i: "play_inv 1000 st" "rl_t (fst (snd st)) = fst (SetTick 1000 rf s0) + int (length hs)"
      using r [THEN conjunct2, rule_format, OF that] st0(5) by simp_all
    obtain s rl md where e: "st = (s, rl, md)" by (cases st) auto
    have "\<bar>rl_t rl\<bar> \<le> 2 ^ 30" using i(2) range e by simp
    then show ?thesis using play_inv_time [of s rl md] i(1) e by simp
  qed
  have A: "map_sum id fst (bind_go (play_start 1000 GlobalVolume rf trimmed kc s0) (play_ticks 1000 GlobalVolume hs))
           = ideal_run (trimmed @ [sentinel]) kc (fst (SetTick 1000 rf s0)) (length hs)"
    using r st0(1) unfolding st0(3-5) by simp
  show ?thesis unfolding st0(1) bind_go_simps using A fin st0(1) by simp
qed

text \<open>C16. The replay listener advances its time by one millisecond per call, i.e. per
  tick.  The session clock's float64 Time stays within one millisecond of the tick
  count, for every tick within \<open>\<plusminus>2^31\<close>, if and only if MaxTPS = 1000; at any other
  tick rate in \<open>1..2^16\<close> the replay drifts against the chart time (by more than a
  millisecond already at tick \<open>4 * MaxTPS\<close>).\<close>

theorem clock_replay_lockstep_iff:
  assumes m: "0 < MaxTPS" "MaxTPS \<le> 2 ^ 16"
  shows "(\<forall>k. \<bar>k\<bar> \<le> 2 ^ 31 \<longrightarrow> \<bar>Time64 MaxTPS \<lparr>Tick = k\<rparr> - k\<bar> \<le> 1) \<longleftrightarrow> MaxTPS = 1000"
proof
  assume lock: "\<forall>k. \<bar>k\<bar> \<le> 2 ^ 31 \<longrightarrow> \<bar>Time64 MaxTPS \<lparr>Tick = k\<rparr> - k\<bar> \<le> 1"
  have k: "\<bar>4 * MaxTPS\<bar> \<le> 2 ^ 31" using m by simp
  have "TickToTime64 MaxTPS (4 * MaxTPS) = 4000 \<or> TickToTime64 MaxTPS (4 * MaxTPS) = 3999"
    using TickToTime64_cases [OF m k] m by (auto simp: mult.commute [of 4] mult.assoc)
  moreover have "\<bar>TickToTime64 MaxTPS (4 * MaxTPS) - 4 * MaxTPS\<bar> \<le> 1"
    using lock k by (simp add: Time64_TickToTime64)
  ultimately show "MaxTPS = 1000" by auto
next
  assume m1: "MaxTPS = 1000"
  show "\<forall>k. \<bar>k\<bar> \<le> 2 ^ 31 \<longrightarrow> \<bar>Time64 MaxTPS \<lparr>Tick = k\<rparr> - k\<bar> \<le> 1"
  proof (intro allI impI)
    fix k :: int
    assume "\<bar>k\<bar> \<le> 2 ^ 31"
    then have "Time64 1000 \<lparr>Tick = k\<rparr> = k \<or> Time64 1000 \<lparr>Tick = k\<rparr> = k - sgn k"
      using Time64_1000 [of "\<lparr>Tick = k\<rparr>"] by simp
    then show "\<bar>Time64 MaxTPS \<lparr>Tick = k\<rparr> - k\<bar> \<le> 1" using m1 by (auto simp: sgn_if)
  qed
qed

subsection \<open>Witnesses\<close>

theorem play_session_refines_witness:
  "let s0 = \<lparr>Tick = 0, MainBPM = 120, SpeedBase = 1,
        chain = [\<lparr>tp_Time = 0, BPM = 120, BeatScale = 1, tp_Volume = 1\<rparr>,
                 \<lparr>tp_Time = 1000, BPM = 180, BeatScale = 1, tp_Volume = 1 / 2\<rparr>],
        TransPoint = 0, LastVolume = 0, Volume = 0\<rparr>;
       trimmed = [\<lparr>W = 0, X = 0\<rparr>, \<lparr>W = 5000, X = 5\<rparr>]
   in (\<exists>j < length (chain s0). tp_Time (chain s0 ! j) \<noteq> tp_Time (chain s0 ! 0))
    \<and> trimmed \<noteq> [] \<and> positive_waits (trimmed @ [sentinel])
    \<and> fst (SetTick 1000 None s0) \<le> threshold (trimmed @ [sentinel]) 0
    \<and> fst (SetTick 1000 None s0) + int (length [[], [(3::int, 1::int)]]) \<le> threshold (trimmed @ [sentinel]) (length trimmed - 1)
    \<and> 0 < MainBPM s0 \<and> (0::int) < 3 \<and> sorted (map tp_Time (chain s0))
    \<and> - (2 ^ 30) \<le> fst (SetTick 1000 None s0) \<and> fst (SetTick 1000 None s0) + int (length [[], [(3::int, 1::int)]]) \<le> 2 ^ 30
    \<and> map_sum id fst (bind_go (play_start 1000 1 None trimmed 3 s0) (play_ticks 1000 1 [[], [(3, 1)]]))
        = ideal_run (trimmed @ [sentinel]) 3 (fst (SetTick 1000 None s0)) (length [[], [(3::int, 1::int)]])
    \<and> (\<forall>ps st. bind_go (play_start 1000 1 None trimmed 3 s0) (play_ticks 1000 1 [[], [(3, 1)]])
                = Inr (ps, st) \<longrightarrow> play_inv 1000 st
                  \<and> \<bar>Time64 1000 (fst st) - (rl_t (fst (snd st)) - 1)\<bar> \<le> 2)"
proof -
  define s0 :: scene_play where "s0 = \<lparr>Tick = 0, MainBPM = 120, SpeedBase = 1,
        chain = [\<lparr>tp_Time = 0, BPM = 120, BeatScale = 1, tp_Volume = 1\<rparr>,
                 \<lparr>tp_Time = 1000, BPM = 180, BeatScale = 1, tp_Volume = 1 / 2\<rparr>],
        TransPoint = 0, LastVolume = 0, Volume = 0\<rparr>"
  define trimmed where "trimmed = [\<lparr>W = 0, X = 0\<rparr>, \<lparr>W = 5000, X = 5 :: real\<rparr>]"
  have h1: "\<exists>j < length (chain s0). tp_Time (chain s0 ! j) \<noteq> tp_Time (chain s0 ! 0)"
    by (rule exI [of _ 1]) (simp add: s0_def)
  have h2: "trimmed \<noteq> []" by (simp add: trimmed_def)
  have h3: "positive_waits (trimmed @ [sentinel])"
    by (auto simp: positive_waits_def trimmed_def sentinel_def less_Suc_eq)
  have w: "fst (SetTick 1000 None s0) = -1800" by (simp add: SetTick_result)
  have h4: "fst (SetTick 1000 None s0) \<le> threshold (trimmed @ [sentinel]) 0"
    by (simp add: w threshold_def trimmed_def)
  have h5: "fst (SetTick 1000 None s0) + int (length [[], [(3::int, 1::int)]])
      \<le> threshold (trimmed @ [sentinel]) (length trimmed - 1)"
    by (simp add: w threshold_def trimmed_def sentinel_def)
  have h6: "0 < MainBPM s0" "(0::int) < 3" "sorted (map tp_Time (chain s0))" by (simp_all add: s0_def)
  have h7: "- (2 ^ 30) \<le> fst (SetTick 1000 None s0)"
      "fst (SetTick 1000 None s0) + int (length [[], [(3::int, 1::int)]]) \<le> 2 ^ 30"
    by (simp_all add: w)
  show ?thesis
    unfolding Let_def s0_def [symmetric] trimmed_def [symmetric]
    using play_session_refines [OF h1 h2 h3 h4 h5 h6 h7, of 1] h1 h2 h3 h4 h5 h6 h7 by blast
qed

theorem clock_replay_lockstep_iff_witness:
  "\<bar>Time64 1000 \<lparr>Tick = 1001\<rparr> - 1001\<bar> \<le> 1 \<and> Time64 1000 \<lparr>Tick = 1001\<rparr> = 1000"
proof -
  have "\<forall>k. \<bar>k\<bar> \<le> 2 ^ 31 \<longrightarrow> \<bar>Time64 1000 \<lparr>Tick = k\<rparr> - k\<bar> \<le> 1"
    using clock_replay_lockstep_iff [of 1000] by simp
  then have "\<bar>Time64 1000 \<lparr>Tick = 1001\<rparr> - 1001\<bar> \<le> 1" by simp
  moreover have "Time64 1000 \<lparr>Tick = 1001\<rparr> = 1000" by (simp add: Time64_TickToTime64 TickToTime64_1001)
  ultimately show ?thesis by simp
qed

end
